theory Spec2Isabelle
  imports Complex_Main "HOL-Library.Sublist"
begin

section \<open>JavaScript strings and whitespace\<close>

text \<open>
  Strings are lists of characters. The whitespace class is the one shared by
  \<^verbatim>\<open>String.prototype.trim\<close> and the regular-expression escape \<^verbatim>\<open>\s\<close>
  (WhiteSpace and LineTerminator of ECMAScript), restricted to the code units below 256:
  TAB, LF, VT, FF, CR, SPACE and NO-BREAK SPACE.
\<close>

definition is_ws :: "char \<Rightarrow> bool" where
  "is_ws c \<longleftrightarrow> c \<in> {CHR 0x09, CHR 0x0A, CHR 0x0B, CHR 0x0C, CHR 0x0D, CHR 0x20, CHR 0xA0}"

definition trimStart :: "string \<Rightarrow> string" where
  "trimStart s = dropWhile is_ws s"

definition trimEnd :: "string \<Rightarrow> string" where
  "trimEnd s = rev (dropWhile is_ws (rev s))"

definition trim :: "string \<Rightarrow> string" where
  "trim s = trimEnd (trimStart s)"

definition startsWith :: "string \<Rightarrow> string \<Rightarrow> bool" where
  "startsWith s p = prefix p s"

definition endsWith :: "string \<Rightarrow> string \<Rightarrow> bool" where
  "endsWith s p = suffix p s"

text \<open>Decimal rendering of a number inside a template literal.\<close>

function toString :: "nat \<Rightarrow> string" where
  "toString n =
     (if n < 10 then [''0123456789'' ! n]
      else toString (n div 10) @ [''0123456789'' ! (n mod 10)])"
  by pat_completeness auto
termination
  by (relation "measure (\<lambda>n. n)") auto

declare toString.simps [simp del]

section \<open>The regular expression of the fence test\<close>

text \<open>
  \<^verbatim>\<open>jsonStr.match(fenceRegex)\<close> runs the backtracking matcher of ECMAScript. The
  fragment below has the constructs the pattern uses: single characters, \<^verbatim>\<open>\s\<close>,
  the dot under the \<^verbatim>\<open>s\<close> flag (any character), sequence, the greedy \<^verbatim>\<open>?\<close>, the
  greedy \<^verbatim>\<open>*\<close> and the lazy \<^verbatim>\<open>*?\<close> over a character class, the capture group and the
  anchors \<^verbatim>\<open>^\<close> and \<^verbatim>\<open>$\<close> (no \<^verbatim>\<open>m\<close> flag: start and end of input).

  A matcher state is the index reached and the input that remains. The matcher is written
  in continuation-passing style, as the ECMAScript specification is: the continuation is
  the rest of the pattern, alternatives are tried in priority order and the first success
  is the result. The only capture is group 1.
\<close>

datatype atom = AChar char | AWs | AAny

datatype rx =
    REmpty
  | RAtom atom
  | RSeq rx rx
  | ROpt rx
  | RStar atom
  | RLazyStar atom
  | RGroup rx
  | RBol
  | REol

type_synonym mstate = "nat \<times> string"

type_synonym captures = "string option"

type_synonym cont = "captures \<Rightarrow> mstate \<Rightarrow> captures option"

text \<open>Backtracking choice: the first alternative that succeeds.\<close>

definition first_of :: "'a option \<Rightarrow> 'a option \<Rightarrow> 'a option" where
  "first_of a b = (case a of Some r \<Rightarrow> Some r | None \<Rightarrow> b)"

fun atom_ok :: "atom \<Rightarrow> char \<Rightarrow> bool" where
  "atom_ok (AChar c) x = (x = c)"
| "atom_ok AWs x = is_ws x"
| "atom_ok AAny x = True"

fun star_greedy :: "(char \<Rightarrow> bool) \<Rightarrow> (mstate \<Rightarrow> captures option) \<Rightarrow> mstate \<Rightarrow> captures option" where
  "star_greedy p k (i, []) = k (i, [])"
| "star_greedy p k (i, x # xs) =
     (if p x then first_of (star_greedy p k (Suc i, xs)) (k (i, x # xs))
      else k (i, x # xs))"

fun star_lazy :: "(char \<Rightarrow> bool) \<Rightarrow> (mstate \<Rightarrow> captures option) \<Rightarrow> mstate \<Rightarrow> captures option" where
  "star_lazy p k (i, []) = k (i, [])"
| "star_lazy p k (i, x # xs) =
     first_of (k (i, x # xs)) (if p x then star_lazy p k (Suc i, xs) else None)"

primrec rx_match :: "rx \<Rightarrow> cont \<Rightarrow> captures \<Rightarrow> mstate \<Rightarrow> captures option" where
  "rx_match REmpty k c st = k c st"
| "rx_match (RAtom a) k c st =
     (case snd st of
        [] \<Rightarrow> None
      | x # xs \<Rightarrow> if atom_ok a x then k c (Suc (fst st), xs) else None)"
| "rx_match (RSeq r1 r2) k c st = rx_match r1 (\<lambda>c' st'. rx_match r2 k c' st') c st"
| "rx_match (ROpt r) k c st = first_of (rx_match r k c st) (k c st)"
| "rx_match (RStar a) k c st = star_greedy (atom_ok a) (k c) st"
| "rx_match (RLazyStar a) k c st = star_lazy (atom_ok a) (k c) st"
| "rx_match (RGroup r) k c st =
     rx_match r (\<lambda>c' st'. k (Some (take (fst st' - fst st) (snd st))) st') c st"
| "rx_match RBol k c st = (if fst st = 0 then k c st else None)"
| "rx_match REol k c st = (if snd st = [] then k c st else None)"

text \<open>
  A non-global \<^verbatim>\<open>match\<close> tries the pattern at index 0, then 1, and so on up to the
  length of the input; the result is \<^verbatim>\<open>null\<close> (\<open>None\<close>) when every start fails, and
  otherwise the captures of the first match.
\<close>

fun rx_exec_from :: "rx \<Rightarrow> mstate \<Rightarrow> captures option" where
  "rx_exec_from r (i, []) = rx_match r (\<lambda>c st. Some c) None (i, [])"
| "rx_exec_from r (i, x # xs) =
     first_of (rx_match r (\<lambda>c st. Some c) None (i, x # xs)) (rx_exec_from r (Suc i, xs))"

definition regex_match :: "string \<Rightarrow> rx \<Rightarrow> captures option" where
  "regex_match s r = rx_exec_from r (0, s)"

fun lit :: "string \<Rightarrow> rx" where
  "lit [] = REmpty"
| "lit (c # cs) = RSeq (RAtom (AChar c)) (lit cs)"

text \<open>
  \<^verbatim>\<open>/^```(?:json)?\s*\n?(.*?)\n?\s*```$/s\<close>
\<close>

definition fenceRegex :: rx where
  "fenceRegex =
     RSeq RBol
    (RSeq (lit ''```'')
    (RSeq (ROpt (lit ''json''))
    (RSeq (RStar AWs)
    (RSeq (ROpt (RAtom (AChar (CHR 0x0A))))
    (RSeq (RGroup (RLazyStar AAny))
    (RSeq (ROpt (RAtom (AChar (CHR 0x0A))))
    (RSeq (RStar AWs)
    (RSeq (lit ''```'')
     REol))))))))"


section \<open>Thrown values, the client and the upstream service\<close>

text \<open>
  A thrown value is either an \<^verbatim>\<open>Error\<close> object, represented by its message, or any other
  value (\<^verbatim>\<open>error instanceof Error\<close> is false for it).
\<close>

datatype thrown = Error string | NonError

text \<open>
  \<^verbatim>\<open>!apiKey\<close>: true for an absent (\<^verbatim>\<open>undefined\<close>) and for an empty credential.
\<close>

definition js_not :: "string option \<Rightarrow> bool" where
  "js_not apiKey = (case apiKey of None \<Rightarrow> True | Some k \<Rightarrow> k = [])"

datatype client = GoogleGenAI string

definition getAi :: "string option \<Rightarrow> thrown + client" where
  "getAi apiKey =
     (case apiKey of
        None \<Rightarrow> Inl (Error ''API Key is missing. Please provide a valid API key.'')
      | Some k \<Rightarrow>
          if k = [] then Inl (Error ''API Key is missing. Please provide a valid API key.'')
          else Inr (GoogleGenAI k))"

definition ENABLE_ASCII_TEXT_GENERATION :: bool where
  "ENABLE_ASCII_TEXT_GENERATION = False"

text \<open>
  The only state the operations touch is the network: \<open>calls\<close> counts the requests sent to
  the generation service so far. The service is an external collaborator; its behaviour is
  given by the outcome of each request, indexed by the number of requests sent before it.
  The prompt and the request configuration are fixed functions of the arguments and reach
  the operations below only through the service, so they are part of these outcomes.
  Console diagnostics are not modelled.
\<close>

record world =
  calls :: nat

text \<open>
  \<^verbatim>\<open>await ai.models.generateContent(...)\<close> resolves with a response, read through its
  \<^verbatim>\<open>text\<close> (a string, as the source takes it), or rejects with a thrown value.
\<close>

datatype call_outcome = Resolved string | Rejected thrown

type_synonym service = "nat \<Rightarrow> call_outcome"

definition generateContent :: "service \<Rightarrow> world \<Rightarrow> call_outcome \<times> world" where
  "generateContent svc w = (svc (calls w), w\<lparr>calls := Suc (calls w)\<rparr>)"

text \<open>
  \<^verbatim>\<open>await ai.models.generateContentStream(...)\<close> rejects, or resolves with an iterable that
  delivers chunks (each with an optional \<^verbatim>\<open>text\<close>) and then either completes or throws.
\<close>

datatype stream_end = Completed | Failed thrown

datatype stream_outcome = StreamRejected thrown | Streamed "string option list" stream_end

type_synonym stream_service = "nat \<Rightarrow> stream_outcome"

definition generateContentStream :: "stream_service \<Rightarrow> world \<Rightarrow> stream_outcome \<times> world" where
  "generateContentStream svc w = (svc (calls w), w\<lparr>calls := Suc (calls w)\<rparr>)"

text \<open>
  \<^verbatim>\<open>error instanceof Error ? error.message : 'An unknown error occurred.'\<close>
\<close>

definition errorMessage :: "thrown \<Rightarrow> string" where
  "errorMessage error = (case error of Error m \<Rightarrow> m | NonError \<Rightarrow> ''An unknown error occurred.'')"

section \<open>JSON values\<close>

text \<open>
  The values \<^verbatim>\<open>JSON.parse\<close> produces. A number is kept as the value of the double; the
  only operation on it here is the truthiness test, false exactly at zero.
\<close>

datatype jsnumber = NumFinite rat | NumPosInfinity | NumNegInfinity

datatype jsvalue =
    JNull
  | JBool bool
  | JNum jsnumber
  | JStr string
  | JArr "jsvalue list"
  | JObj "(string \<times> jsvalue) list"

type_synonym jsobject = "(string \<times> jsvalue) list"

text \<open>Property read \<^verbatim>\<open>obj.key\<close>; \<open>None\<close> is \<^verbatim>\<open>undefined\<close>.\<close>

definition property :: "jsobject \<Rightarrow> string \<Rightarrow> jsvalue option" where
  "property obj key = map_of obj key"

fun truthy :: "jsvalue option \<Rightarrow> bool" where
  "truthy None = False"
| "truthy (Some JNull) = False"
| "truthy (Some (JBool b)) = b"
| "truthy (Some (JNum (NumFinite q))) = (q \<noteq> 0)"
| "truthy (Some (JNum NumPosInfinity)) = True"
| "truthy (Some (JNum NumNegInfinity)) = True"
| "truthy (Some (JStr s)) = (s \<noteq> [])"
| "truthy (Some (JArr xs)) = True"
| "truthy (Some (JObj kvs)) = True"

text \<open>
  The interface \<^verbatim>\<open>AsciiArtData\<close>. The field \<open>text'\<close> is the optional \<^verbatim>\<open>text\<close>, absent when
  \<open>None\<close>; its value is whatever the parsed response carried, since nothing checks it.
\<close>

record AsciiArtData =
  art :: string
  text' :: "jsvalue option"

section \<open>streamDefinition\<close>

text \<open>
  What the consumer of the generator observes when it reads to the end: the fragments in
  the order they are yielded, then how the generator finishes. A consumer that stops
  reading earlier has seen a prefix of the fragments.
\<close>

datatype generator_end = Returned | Threw thrown

text \<open>The \<^verbatim>\<open>for await\<close> loop: a chunk is yielded when its text is truthy.\<close>

fun for_await_chunks :: "string option list \<Rightarrow> string list" where
  "for_await_chunks [] = []"
| "for_await_chunks (chunk # response) =
     (case chunk of
        None \<Rightarrow> for_await_chunks response
      | Some t \<Rightarrow> if t \<noteq> [] then t # for_await_chunks response else for_await_chunks response)"

definition stream_error_fragment :: "string \<Rightarrow> thrown \<Rightarrow> string" where
  "stream_error_fragment topic error =
     ''Error: Could not generate content for \"'' @ topic @ ''\". '' @ errorMessage error @
     ''. Please check if your API key is correct.''"

definition streamDefinition ::
  "stream_service \<Rightarrow> string \<Rightarrow> string \<Rightarrow> string option \<Rightarrow> world \<Rightarrow>
     (string list \<times> generator_end) \<times> world" where
  "streamDefinition svc topic language apiKey w =
     (if js_not apiKey then
        (([''Error: API_KEY is not configured. Please set your API key to continue.''], Returned), w)
      else
        case getAi apiKey of
          Inl e \<Rightarrow> (([], Threw e), w)
        | Inr ai \<Rightarrow>
            (let (response, w1) = generateContentStream svc w in
             case response of
               StreamRejected error \<Rightarrow>
                 (([stream_error_fragment topic error], Threw (Error (errorMessage error))), w1)
             | Streamed chunks Completed \<Rightarrow> ((for_await_chunks chunks, Returned), w1)
             | Streamed chunks (Failed error) \<Rightarrow>
                 ((for_await_chunks chunks @ [stream_error_fragment topic error],
                   Threw (Error (errorMessage error))), w1)))"

section \<open>getRandomWord\<close>

definition getRandomWord ::
  "service \<Rightarrow> string \<Rightarrow> string option \<Rightarrow> world \<Rightarrow> (thrown + string) \<times> world" where
  "getRandomWord svc language apiKey w =
     (case getAi apiKey of
        Inl e \<Rightarrow> (Inl e, w)
      | Inr ai \<Rightarrow>
          (let (response, w1) = generateContent svc w in
           case response of
             Resolved t \<Rightarrow> (Inr (trim t), w1)
           | Rejected error \<Rightarrow>
               (Inl (Error (''Could not get random word: '' @ errorMessage error)), w1)))"

section \<open>generateAsciiArt\<close>

text \<open>
  \<^verbatim>\<open>JSON.parse\<close> is a parameter of the model: applied to a text it either throws a
  \<^verbatim>\<open>SyntaxError\<close> (\<open>Inl\<close>, with its message) or returns the parsed value. It is only
  called on a text that starts with an opening brace, where a parsed value is an object.
\<close>

type_synonym json_parser = "string \<Rightarrow> string + jsobject"

text \<open>The fence test and the replacement of the text by capture group 1.\<close>

definition strip_fence :: "string \<Rightarrow> string" where
  "strip_fence jsonStr =
     (case regex_match jsonStr fenceRegex of
        None \<Rightarrow> jsonStr
      | Some None \<Rightarrow> jsonStr
      | Some (Some g) \<Rightarrow> if g \<noteq> [] then trim g else jsonStr)"

text \<open>From the response text to the parsed object.\<close>

definition parse_response :: "json_parser \<Rightarrow> string \<Rightarrow> thrown + jsobject" where
  "parse_response JSON_parse response_text =
     (let jsonStr = strip_fence (trim response_text) in
      if \<not> startsWith jsonStr ''{'' \<or> \<not> endsWith jsonStr ''}'' then
        Inl (Error ''Response is not a valid JSON object'')
      else
        case JSON_parse jsonStr of
          Inl m \<Rightarrow> Inl (Error m)
        | Inr parsedData \<Rightarrow> Inr parsedData)"

text \<open>
  The check of the \<^verbatim>\<open>art\<close> field and the construction of the result. The flag is the
  constant \<^verbatim>\<open>ENABLE_ASCII_TEXT_GENERATION\<close>, taken as an argument so that both of its
  values can be examined.
\<close>

definition build_result :: "bool \<Rightarrow> jsobject \<Rightarrow> thrown + AsciiArtData" where
  "build_result enable_text parsedData =
     (case property parsedData ''art'' of
        Some (JStr a) \<Rightarrow>
          if length (trim a) = 0 then Inl (Error ''Invalid or empty ASCII art in response'')
          else
            (let result = \<lparr>art = a, text' = None\<rparr> in
             if enable_text \<and> truthy (property parsedData ''text'')
             then Inr (result\<lparr>text' := property parsedData ''text''\<rparr>)
             else Inr result)
      | _ \<Rightarrow> Inl (Error ''Invalid or empty ASCII art in response''))"

text \<open>The body of the \<^verbatim>\<open>try\<close> block, from the outcome of the request.\<close>

definition attempt_body :: "bool \<Rightarrow> json_parser \<Rightarrow> call_outcome \<Rightarrow> thrown + AsciiArtData" where
  "attempt_body enable_text JSON_parse response =
     (case response of
        Rejected e \<Rightarrow> Inl e
      | Resolved t \<Rightarrow>
          (case parse_response JSON_parse t of
             Inl e \<Rightarrow> Inl e
           | Inr parsedData \<Rightarrow> build_result enable_text parsedData))"

definition maxRetries :: nat where
  "maxRetries = 3"

text \<open>
  \<^verbatim>\<open>error instanceof Error ? error : new Error('Unknown error occurred')\<close>, as the message
  of the resulting \<^verbatim>\<open>Error\<close>.
\<close>

definition as_Error :: "thrown \<Rightarrow> string" where
  "as_Error error = (case error of Error m \<Rightarrow> m | NonError \<Rightarrow> ''Unknown error occurred'')"

text \<open>
  The \<^verbatim>\<open>for\<close> loop with its \<^verbatim>\<open>catch\<close> clause, and the \<^verbatim>\<open>throw\<close> that follows the loop.
  \<open>lastError\<close> holds the message of the recorded \<^verbatim>\<open>Error\<close>, \<open>None\<close> for \<^verbatim>\<open>null\<close>.
\<close>

function attempt_loop ::
  "bool \<Rightarrow> json_parser \<Rightarrow> service \<Rightarrow> nat \<Rightarrow> string option \<Rightarrow> world \<Rightarrow>
     (thrown + AsciiArtData) \<times> world" where
  "attempt_loop enable_text JSON_parse svc attempt lastError w =
     (if attempt \<le> maxRetries then
        (case attempt_body enable_text JSON_parse (fst (generateContent svc w)) of
           Inr result \<Rightarrow> (Inr result, snd (generateContent svc w))
         | Inl error \<Rightarrow>
             (let lastError' = as_Error error in
              if attempt = maxRetries then
                (Inl (Error (''Could not generate ASCII art after '' @ toString maxRetries @
                             '' attempts: '' @ lastError')),
                 snd (generateContent svc w))
              else
                attempt_loop enable_text JSON_parse svc (attempt + 1) (Some lastError')
                  (snd (generateContent svc w))))
      else
        (Inl (Error (case lastError of Some m \<Rightarrow> m | None \<Rightarrow> ''All retry attempts failed'')), w))"
  by pat_completeness auto
termination
  by (relation "measure (\<lambda>(e, p, s, attempt, l, w). maxRetries + 1 - attempt)") auto

declare attempt_loop.simps [simp del]

definition generateAsciiArt_cfg ::
  "bool \<Rightarrow> json_parser \<Rightarrow> service \<Rightarrow> string \<Rightarrow> string \<Rightarrow> string option \<Rightarrow> string \<Rightarrow> world \<Rightarrow>
     (thrown + AsciiArtData) \<times> world" where
  "generateAsciiArt_cfg enable_text JSON_parse svc topic language apiKey style w =
     (case getAi apiKey of
        Inl e \<Rightarrow> (Inl e, w)
      | Inr ai \<Rightarrow> attempt_loop enable_text JSON_parse svc 1 None w)"

definition generateAsciiArt ::
  "json_parser \<Rightarrow> service \<Rightarrow> string \<Rightarrow> string \<Rightarrow> string option \<Rightarrow> string \<Rightarrow> world \<Rightarrow>
     (thrown + AsciiArtData) \<times> world" where
  "generateAsciiArt = generateAsciiArt_cfg ENABLE_ASCII_TEXT_GENERATION"


section \<open>Sample collaborators\<close>

text \<open>
  Concrete collaborators on which the statements below are exercised: a stand-in for
  \<^verbatim>\<open>JSON.parse\<close> that agrees with it on three texts and throws on every other one, a
  service whose first request is refused, whose second response has a blank \<^verbatim>\<open>art\<close> and
  whose third response is a fenced object, and a service that fails three times.
\<close>

definition sample_parse :: json_parser where
  "sample_parse s =
     (if s = ''{\"art\":\"x\"}'' then Inr [(''art'', JStr ''x'')]
      else if s = ''{\"art\":\" \"}'' then Inr [(''art'', JStr '' '')]
      else if s = ''{\"art\":\"x\",\"text\":\"T\"}'' then Inr [(''art'', JStr ''x''), (''text'', JStr ''T'')]
      else Inl ''Unexpected token'')"

definition sample_fenced_text :: string where
  "sample_fenced_text = ''```json'' @ [CHR 0x0A] @ ''{\"art\":\"x\"}'' @ [CHR 0x0A] @ ''```''"

definition sample_service :: service where
  "sample_service n =
     (if n = 0 then Rejected (Error ''network down'')
      else if n = 1 then Resolved ''{\"art\":\" \"}''
      else Resolved sample_fenced_text)"

definition failing_service :: service where
  "failing_service n =
     (if n = 0 then Resolved ''no json here''
      else if n = 1 then Rejected NonError
      else Rejected (Error ''quota exceeded''))"

text \<open>A service whose response carries a \<^verbatim>\<open>text\<close> field next to \<^verbatim>\<open>art\<close>.\<close>

definition text_service :: service where
  "text_service n = Resolved ''{\"art\":\"x\",\"text\":\"T\"}''"

text \<open>
  A stream that delivers one fragment, then a chunk without text, and fails; and a stream
  that delivers chunks with and without text and completes.
\<close>

definition broken_stream :: stream_service where
  "broken_stream n = Streamed [Some ''A cat is '', None] (Failed (Error ''socket closed''))"

text \<open>A service whose every response has a blank \<^verbatim>\<open>art\<close>.\<close>

definition blank_service :: service where
  "blank_service n = Resolved ''{\"art\":\" \"}''"

text \<open>A service that answers with a word surrounded by spaces.\<close>

definition padded_service :: service where
  "padded_service n = Resolved '' cat ''"

definition complete_stream :: stream_service where
  "complete_stream n = Streamed [Some ''A cat '', Some [], None, Some ''is a mammal.''] Completed"

section \<open>The response pipeline in the words of the specification\<close>

text \<open>
  The specification describes the treatment of a response text as: trim it; if it is
  wrapped in a code fence, optionally labelled \<^verbatim>\<open>json\<close>, keep only the inner content;
  reject it unless what remains starts with an opening and ends with a closing brace; parse
  it as JSON and reject it if parsing fails. The definitions below follow these words and
  are compared with \<open>parse_response\<close> further down.

  A text is wrapped in a fence when it starts with three backticks and, after them, ends
  with three backticks. Its inner content is what lies between the opening fence, with the
  label \<^verbatim>\<open>json\<close> when it is there, and the closing fence, without the surrounding whitespace.
\<close>

definition fence_body :: "string \<Rightarrow> string" where
  "fence_body v = take (length v - 3) v"

definition spec_fenced :: "string \<Rightarrow> bool" where
  "spec_fenced t \<longleftrightarrow> prefix ''```'' t \<and> suffix ''```'' (drop 3 t)"

definition spec_fence_inner :: "string \<Rightarrow> string" where
  "spec_fence_inner t =
     (let r = drop 3 t; r' = (if prefix ''json'' r then drop 4 r else r)
      in trim (fence_body r'))"

definition spec_process :: "json_parser \<Rightarrow> string \<Rightarrow> thrown + jsobject" where
  "spec_process JSON_parse raw =
     (let t = trim raw;
          u = (if spec_fenced t then spec_fence_inner t else t)
      in if prefix ''{'' u \<and> suffix ''}'' u then
           (case JSON_parse u of Inl m \<Rightarrow> Inl (Error m) | Inr obj \<Rightarrow> Inr obj)
         else Inl (Error ''Response is not a valid JSON object''))"

text \<open>
  A fenced form of a text \<open>j\<close>: the opening fence, the label, whitespace, the text,
  whitespace, the closing fence.
\<close>

definition fenced :: "string \<Rightarrow> string \<Rightarrow> string \<Rightarrow> string \<Rightarrow> string" where
  "fenced label w1 j w2 = ''```'' @ label @ w1 @ j @ w2 @ ''```''"

section \<open>Names for the tail of the fence pattern\<close>

text \<open>
  The continuations that the matcher builds for the parts of the pattern to the right of
  the optional label: the closing part \<^verbatim>\<open>\n?\s*```$\<close>, the group followed by it, and the
  leading \<^verbatim>\<open>\s*\n?\<close> followed by both.
\<close>

definition k_tail :: cont where
  "k_tail = rx_match (ROpt (RAtom (AChar (CHR 0x0A))))
     (rx_match (RStar AWs) (rx_match (lit ''```'') (rx_match REol (\<lambda>c st. Some c))))"

definition k_group :: cont where
  "k_group = rx_match (RGroup (RLazyStar AAny)) k_tail"

definition k_ws :: cont where
  "k_ws = rx_match (RStar AWs) (rx_match (ROpt (RAtom (AChar (CHR 0x0A)))) k_group)"

section \<open>The matcher on the fence pattern\<close>

lemma first_of_simps [simp]:
  "first_of None b = b" "first_of (Some r) b = Some r" "first_of a None = a" "first_of a a = a"
  by (simp_all add: first_of_def split: option.split)

lemma not_ws_backtick [simp]: "\<not> is_ws (CHR ''`'')"
  by (simp add: is_ws_def)

lemma ws_newline [simp]: "is_ws (CHR 0x0A)"
  by (simp add: is_ws_def)

lemma rx_atom_Nil: "rx_match (RAtom a) k c (i, []) = None"
  by simp

lemma rx_atom_Cons:
  "rx_match (RAtom a) k c (i, x # xs) = (if atom_ok a x then k c (Suc i, xs) else None)"
  by simp

lemma rx_group: 
  "rx_match (RGroup r) k c (i, s) = rx_match r (\<lambda>c' st'. k (Some (take (fst st' - i) s)) st') c (i, s)"
  by simp

lemma rx_bol: "rx_match RBol k c (i, s) = (if i = 0 then k c (i, s) else None)"
  by simp

lemma rx_eol: "rx_match REol k c (i, s) = (if s = [] then k c (i, s) else None)"
  by simp

lemma atom_ok_fun [simp]: "atom_ok AWs = is_ws" "atom_ok AAny = (\<lambda>x. True)"
  by (rule ext, simp)+

lemma rx_seq: "rx_match (RSeq r1 r2) k = rx_match r1 (rx_match r2 k)"
  by (rule ext)+ simp

lemmas rx_steps = rx_match.simps(1,4,5,6) rx_seq rx_atom_Nil rx_atom_Cons rx_group rx_bol rx_eol

declare rx_match.simps [simp del]
declare lit.simps [simp del]

lemma rx_match_lit:
  "rx_match (lit p) k c (i, s) =
     (if prefix p s then k c (i + length p, drop (length p) s) else None)"
proof (induction p arbitrary: i s)
  case Nil
  then show ?case by (simp add: lit.simps rx_steps)
next
  case (Cons a p)
  show ?case
  proof (cases s)
    case Nil
    then show ?thesis by (simp add: lit.simps rx_steps)
  next
    case (Cons x xs)
    then show ?thesis using Cons.IH [of "Suc i" xs] by (simp add: lit.simps rx_steps)
  qed
qed

lemma star_greedy_exact:
  assumes kk: "\<And>j v. kk (j, v) = (if v = tgt then f j else None)"
    and tgt: "tgt \<noteq> []" "\<not> p (hd tgt)"
  shows "star_greedy p kk (j, v) =
           (if dropWhile p v = tgt then f (j + length (takeWhile p v)) else None)"
proof (induction v arbitrary: j)
  case Nil
  then show ?case using tgt by (simp add: kk)
next
  case (Cons x xs)
  show ?case
  proof (cases "p x")
    case True
    then have "x # xs \<noteq> tgt" using tgt by (cases tgt) auto
    then show ?thesis using True Cons.IH [of "Suc j"] by (simp add: kk)
  next
    case False
    then show ?thesis using tgt by (cases tgt) (auto simp: kk)
  qed
qed

lemma dropWhile_len: "dropWhile p v = t \<Longrightarrow> length (takeWhile p v) + length t = length v"
  by (metis length_append takeWhile_dropWhile_id)

lemma ws_star_close:
  "rx_match (RStar AWs) (rx_match (lit ''```'') (rx_match REol k)) c (j, v) =
     (if dropWhile is_ws v = ''```'' then k c (j + length v, []) else None)"
proof -
  let ?kk = "rx_match (lit ''```'') (rx_match REol k) c"
  have kk: "\<And>j v. ?kk (j, v) = (if v = ''```'' then k c (j + 3, []) else None)"
    by (auto simp: rx_match_lit rx_steps prefix_def numeral_3_eq_3)
  have "star_greedy is_ws ?kk (j, v) =
          (if dropWhile is_ws v = ''```'' then k c (j + length (takeWhile is_ws v) + 3, []) else None)"
    using star_greedy_exact [of ?kk "''```''" "\<lambda>j. k c (j + 3, [])" is_ws j v] kk by simp
  moreover have "dropWhile is_ws v = ''```'' \<Longrightarrow> j + length (takeWhile is_ws v) + 3 = j + length v"
    using dropWhile_len [of is_ws v "''```''"] by simp
  ultimately show ?thesis by (simp add: rx_steps add.assoc)
qed

lemma rx_match_fence_tail:
  "rx_match (ROpt (RAtom (AChar (CHR 0x0A))))
     (rx_match (RStar AWs) (rx_match (lit ''```'') (rx_match REol k))) c (j, v) =
     (if dropWhile is_ws v = ''```'' then k c (j + length v, []) else None)"
  by (cases v) (simp_all add: rx_match.simps(4) rx_atom_Nil rx_atom_Cons ws_star_close)


lemma trimEnd_eq_Nil: "trimEnd b = [] \<longleftrightarrow> (\<forall>x\<in>set b. is_ws x)"
  by (simp add: trimEnd_def dropWhile_eq_Nil_conv)

lemma trimEnd_Cons:
  "trimEnd (x # b) = (if is_ws x \<and> trimEnd b = [] then [] else x # trimEnd b)"
  by (auto simp: trimEnd_def dropWhile_append dropWhile_eq_Nil_conv)

lemma suffix_fence_body: "suffix ''```'' v \<Longrightarrow> v = fence_body v @ ''```''"
  by (auto simp: suffix_def fence_body_def)

lemma fence_body_append [simp]: "fence_body (b @ ''```'') = b"
  by (simp add: fence_body_def)

lemma dropWhile_fence_iff:
  "dropWhile is_ws v = ''```'' \<longleftrightarrow> suffix ''```'' v \<and> trimEnd (fence_body v) = []"
proof
  assume a: "dropWhile is_ws v = ''```''"
  have "v = takeWhile is_ws v @ ''```''" using a takeWhile_dropWhile_id [of is_ws v] by simp
  then obtain b where b: "v = b @ ''```''" "\<forall>x\<in>set b. is_ws x"
    by (metis set_takeWhileD)
  then show "suffix ''```'' v \<and> trimEnd (fence_body v) = []"
    by (simp add: trimEnd_eq_Nil suffix_def)
next
  assume a: "suffix ''```'' v \<and> trimEnd (fence_body v) = []"
  then have v: "v = fence_body v @ ''```''" using suffix_fence_body by blast
  have "\<forall>x\<in>set (fence_body v). is_ws x" using a by (simp add: trimEnd_eq_Nil)
  then have "dropWhile is_ws (fence_body v @ ''```'') = ''```''"
    by (simp add: dropWhile_append)
  then show "dropWhile is_ws v = ''```''" using v by simp
qed

lemma suffix_fence_Cons:
  "suffix ''```'' (x # xs) \<longleftrightarrow> suffix ''```'' xs \<or> x # xs = ''```''"
  by (auto simp: suffix_Cons)

lemma fence_body_Cons: "suffix ''```'' xs \<Longrightarrow> fence_body (x # xs) = x # fence_body xs"
  by (auto simp: suffix_def fence_body_def)

lemma star_lazy_group:
  "star_lazy (\<lambda>x. True)
     (\<lambda>st. if dropWhile is_ws (snd st) = ''```'' then Some (h (fst st)) else None) (j, v) =
     (if suffix ''```'' v then Some (h (j + length (trimEnd (fence_body v)))) else None)"
proof (induction v arbitrary: j)
  case Nil
  then show ?case by simp
next
  case (Cons x xs)
  show ?case
  proof (cases "dropWhile is_ws (x # xs) = ''```''")
    case True
    then have "suffix ''```'' (x # xs) \<and> trimEnd (fence_body (x # xs)) = []"
      by (simp only: dropWhile_fence_iff)
    then show ?thesis using True by simp
  next
    case False
    then have ne: "x # xs \<noteq> ''```''" by auto
    have step: "star_lazy (\<lambda>x. True)
        (\<lambda>st. if dropWhile is_ws (snd st) = ''```'' then Some (h (fst st)) else None) (j, x # xs) =
        (if suffix ''```'' xs then Some (h (Suc j + length (trimEnd (fence_body xs)))) else None)"
      using False Cons.IH [of "Suc j"] by simp
    show ?thesis
    proof (cases "suffix ''```'' xs")
      case s: True
      then have fb: "fence_body (x # xs) = x # fence_body xs" by (rule fence_body_Cons)
      have "\<not> (is_ws x \<and> trimEnd (fence_body xs) = [])"
      proof
        assume "is_ws x \<and> trimEnd (fence_body xs) = []"
        then have "trimEnd (fence_body (x # xs)) = []" using fb by (simp add: trimEnd_Cons)
        moreover have "suffix ''```'' (x # xs)" using s by (simp add: suffix_Cons)
        ultimately show False using False dropWhile_fence_iff by blast
      qed
      then have "trimEnd (fence_body (x # xs)) = x # trimEnd (fence_body xs)"
        using fb by (simp add: trimEnd_Cons)
      then show ?thesis using step s by (simp add: suffix_Cons)
    next
      case n: False
      then have "\<not> suffix ''```'' (x # xs)" using ne by (simp only: suffix_fence_Cons) simp
      then show ?thesis using step n by simp
    qed
  qed
qed


lemma k_tail_eq:
  "k_tail c st = (if dropWhile is_ws (snd st) = ''```'' then Some c else None)"
  unfolding k_tail_def by (cases st) (simp add: rx_match_fence_tail)

lemma prefix_trimEnd: "prefix (trimEnd b) b"
proof -
  have "suffix (dropWhile is_ws (rev b)) (rev b)" by (rule suffix_dropWhile)
  then show ?thesis unfolding trimEnd_def by (metis rev_rev_ident suffix_to_prefix)
qed

lemma prefix_fence_body: "prefix (fence_body v) v"
  by (simp add: fence_body_def take_is_prefix)

lemma take_prefix_length: "prefix p v \<Longrightarrow> take (length p) v = p"
  by (auto simp: prefix_def)

lemma k_group_eq:
  "k_group c (j, v) =
     (if suffix ''```'' v then Some (Some (trimEnd (fence_body v))) else None)"
proof -
  have "prefix (trimEnd (fence_body v)) v"
    using prefix_trimEnd prefix_fence_body prefix_order.trans by blast
  then have "take (length (trimEnd (fence_body v))) v = trimEnd (fence_body v)"
    by (rule take_prefix_length)
  then show ?thesis
    using star_lazy_group [of "\<lambda>i. Some (take (i - j) v)" j v]
    by (simp add: k_group_def rx_group rx_match.simps(6) k_tail_eq)
qed

lemma trim_Cons_ws: "is_ws x \<Longrightarrow> trim (x # b) = trim b"
  by (simp add: trim_def trimStart_def)

lemma trim_Cons_not_ws: "\<not> is_ws x \<Longrightarrow> trim (x # b) = trimEnd (x # b)"
  by (simp add: trim_def trimStart_def)

lemma trim_Nil [simp]: "trim [] = []" "trimEnd [] = []"
  by (simp_all add: trim_def trimStart_def trimEnd_def)

lemma star_greedy_fence:
  "star_greedy is_ws (rx_match (ROpt (RAtom (AChar (CHR 0x0A)))) k_group c) (i, t) =
   (if suffix ''```'' t then Some (Some (trim (fence_body t))) else None)"
proof (induction t arbitrary: i)
  case Nil
  then show ?case by (simp add: rx_match.simps(4) rx_atom_Nil k_group_eq)
next
  case (Cons x xs)
  show ?case
  proof (cases "is_ws x")
    case True
    then have ne: "x # xs \<noteq> ''```''" by auto
    show ?thesis
    proof (cases "suffix ''```'' xs")
      case s: True
      then have "fence_body (x # xs) = x # fence_body xs" by (rule fence_body_Cons)
      then have "trim (fence_body (x # xs)) = trim (fence_body xs)"
        using True by (simp add: trim_Cons_ws)
      then show ?thesis using True s Cons.IH [of "Suc i"] by (simp add: suffix_Cons)
    next
      case n: False
      then have "\<not> suffix ''```'' (x # xs)" using ne by (simp only: suffix_fence_Cons) simp
      then show ?thesis using True n Cons.IH [of "Suc i"]
        by (simp add: rx_match.simps(4) rx_atom_Cons k_group_eq)
    qed
  next
    case False
    then have nl: "x \<noteq> CHR 0x0A" by auto
    have "suffix ''```'' (x # xs) \<Longrightarrow> trim (fence_body (x # xs)) = trimEnd (fence_body (x # xs))"
    proof -
      assume "suffix ''```'' (x # xs)"
      then consider "x # xs = ''```''" | "suffix ''```'' xs" by (auto simp only: suffix_fence_Cons)
      then show ?thesis
      proof cases
        case 1
        then show ?thesis by (simp add: fence_body_def)
      next
        case 2
        then show ?thesis using False by (simp add: fence_body_Cons trim_Cons_not_ws)
      qed
    qed
    then show ?thesis using False nl
      by (simp add: rx_match.simps(4) rx_atom_Cons k_group_eq)
  qed
qed


lemma rx_match_lit_fence:
  "rx_match (lit ''```'') k c (i, s) =
     (if prefix ''```'' s then k c (i + 3, drop 3 s) else None)"
  using rx_match_lit [of "''```''" k c i s] by (simp add: numeral_3_eq_3)

lemma rx_match_lit_json:
  "rx_match (lit ''json'') k c (i, s) =
     (if prefix ''json'' s then k c (i + 4, drop 4 s) else None)"
  using rx_match_lit [of "''json''" k c i s] by (simp add: numeral_Bit0 numeral_3_eq_3)

lemma k_ws_eq:
  "k_ws c (i, t) = (if suffix ''```'' t then Some (Some (trim (fence_body t))) else None)"
  unfolding k_ws_def by (simp add: rx_match.simps(5) star_greedy_fence)

lemma suffix_fence_json:
  "prefix ''json'' r \<Longrightarrow> suffix ''```'' r \<longleftrightarrow> suffix ''```'' (drop 4 r)"
proof -
  assume "prefix ''json'' r"
  then obtain t where r: "r = ''json'' @ t" by (auto simp: prefix_def)
  have "suffix ''```'' (''json'' @ t) \<longleftrightarrow> suffix ''```'' t"
    by (auto simp: suffix_append suffix_def Cons_eq_append_conv append_eq_Cons_conv)
  then show ?thesis using r by simp
qed

lemma fenceRegex_unfold:
  "rx_match fenceRegex (\<lambda>c st. Some c) =
     rx_match RBol (rx_match (lit ''```'') (rx_match (ROpt (lit ''json'')) k_ws))"
  by (simp add: fenceRegex_def rx_seq k_ws_def k_group_def k_tail_def)

lemma rx_match_fenceRegex:
  "rx_match fenceRegex (\<lambda>c st. Some c) c (i, t) =
     (if i = 0 \<and> prefix ''```'' t \<and> suffix ''```'' (drop 3 t)
      then Some (Some (spec_fence_inner t)) else None)"
proof -
  have opt: "rx_match (ROpt (lit ''json'')) k_ws c (j, r) =
          (if suffix ''```'' r
           then Some (Some (trim (fence_body (if prefix ''json'' r then drop 4 r else r))))
           else None)" for j r
    using suffix_fence_json [of r]
    by (simp add: rx_match.simps(4) rx_match_lit_json k_ws_eq)
  show ?thesis
    by (simp add: fenceRegex_unfold rx_bol rx_match_lit_fence opt spec_fence_inner_def)
qed

lemma rx_exec_from_fenceRegex_pos:
  "0 < i \<Longrightarrow> rx_exec_from fenceRegex (i, s) = None"
  by (induction s arbitrary: i) (simp_all add: rx_match_fenceRegex)

lemma regex_match_fenceRegex:
  "regex_match t fenceRegex =
     (if prefix ''```'' t \<and> suffix ''```'' (drop 3 t)
      then Some (Some (spec_fence_inner t)) else None)"
proof (cases t)
  case Nil
  then show ?thesis by (simp add: regex_match_def rx_match_fenceRegex)
next
  case (Cons x xs)
  have "regex_match t fenceRegex = rx_match fenceRegex (\<lambda>c st. Some c) None (0, t)"
    using Cons by (simp add: regex_match_def rx_exec_from_fenceRegex_pos)
  then show ?thesis by (simp only: rx_match_fenceRegex) simp
qed

section \<open>Trimming and the fence step\<close>

lemma dropWhile_all: "\<forall>x\<in>set w. P x \<Longrightarrow> dropWhile P w = []"
  by simp

lemma trimEnd_ws_append: "\<forall>x\<in>set w. is_ws x \<Longrightarrow> trimEnd (s @ w) = trimEnd s"
  by (simp add: trimEnd_def dropWhile_append)

lemma trimStart_ws_append: "\<forall>x\<in>set w. is_ws x \<Longrightarrow> trimStart (w @ s) = trimStart s"
  by (simp add: trimStart_def dropWhile_append)

lemma trim_ws_left: "\<forall>x\<in>set w. is_ws x \<Longrightarrow> trim (w @ s) = trim s"
  by (simp add: trim_def trimStart_ws_append)

lemma trim_ws_right: "\<forall>x\<in>set w. is_ws x \<Longrightarrow> trim (s @ w) = trim s"
proof (cases "\<forall>x\<in>set s. is_ws x")
  case True
  assume w: "\<forall>x\<in>set w. is_ws x"
  show ?thesis using True w
    by (simp add: trim_def trimStart_def dropWhile_append dropWhile_all
        del: dropWhile_eq_Nil_conv)
next
  case False
  assume w: "\<forall>x\<in>set w. is_ws x"
  have "dropWhile is_ws (s @ w) = dropWhile is_ws s @ w"
    using False by (auto simp: dropWhile_append)
  then show ?thesis using w by (simp add: trim_def trimStart_def trimEnd_ws_append)
qed

lemma trimEnd_fixed: "s \<noteq> [] \<Longrightarrow> \<not> is_ws (last s) \<Longrightarrow> trimEnd s = s"
proof -
  assume a: "s \<noteq> []" "\<not> is_ws (last s)"
  then obtain y ys where r: "rev s = y # ys" by (cases "rev s") auto
  then have "y = last s" using a by (metis hd_rev list.sel(1))
  then have "dropWhile is_ws (y # ys) = y # ys" using a by simp
  then have "trimEnd s = rev (y # ys)" unfolding trimEnd_def r by simp
  then show ?thesis using r by (metis rev_rev_ident)
qed

lemma trim_fixed:
  "s = [] \<or> (\<not> is_ws (hd s) \<and> \<not> is_ws (last s)) \<Longrightarrow> trim s = s"
proof (cases s)
  case Nil
  then show ?thesis by simp
next
  case (Cons x xs)
  assume "s = [] \<or> (\<not> is_ws (hd s) \<and> \<not> is_ws (last s))"
  then have h: "\<not> is_ws x" "\<not> is_ws (last s)" using Cons by auto
  have "trimStart s = s" using Cons h by (simp add: trimStart_def)
  moreover have "trimEnd s = s" using Cons h trimEnd_fixed by blast
  ultimately show ?thesis by (simp add: trim_def)
qed

lemma trimEnd_last: "trimEnd u \<noteq> [] \<Longrightarrow> \<not> is_ws (last (trimEnd u))"
proof -
  assume a: "trimEnd u \<noteq> []"
  then have ne: "dropWhile is_ws (rev u) \<noteq> []" by (simp add: trimEnd_def)
  then have "\<not> is_ws (hd (dropWhile is_ws (rev u)))" by (rule hd_dropWhile)
  moreover have "last (trimEnd u) = hd (dropWhile is_ws (rev u))"
    using ne by (simp add: trimEnd_def last_rev)
  ultimately show ?thesis by simp
qed

lemma trimEnd_hd: "trimEnd u \<noteq> [] \<Longrightarrow> hd (trimEnd u) = hd u"
  using prefix_trimEnd [of u] by (metis hd_append2 prefix_def)

lemma trim_ends: "trim s = [] \<or> (\<not> is_ws (hd (trim s)) \<and> \<not> is_ws (last (trim s)))"
proof (cases "trim s = []")
  case True
  then show ?thesis by simp
next
  case False
  let ?u = "dropWhile is_ws s"
  have t: "trim s = trimEnd ?u" by (simp add: trim_def trimStart_def)
  then have "?u \<noteq> []" using False by (metis trim_Nil(2))
  then have "\<not> is_ws (hd ?u)" by (rule hd_dropWhile)
  then have "\<not> is_ws (hd (trim s))" using t False trimEnd_hd by simp
  moreover have "\<not> is_ws (last (trim s))" using t False trimEnd_last by simp
  ultimately show ?thesis by simp
qed

lemma trim_idem [simp]: "trim (trim s) = trim s"
  using trim_ends [of s] trim_fixed by blast

lemma strip_fence_eq:
  "strip_fence t =
     (if spec_fenced t \<and> spec_fence_inner t \<noteq> [] then spec_fence_inner t else t)"
proof -
  have "trim (spec_fence_inner t) = spec_fence_inner t"
    by (simp add: spec_fence_inner_def Let_def)
  then show ?thesis
    by (simp add: strip_fence_def regex_match_fenceRegex spec_fenced_def)
qed

lemma spec_fenced_not_brace: "spec_fenced t \<Longrightarrow> \<not> prefix ''{'' t"
  by (auto simp: spec_fenced_def prefix_def)

lemma parse_response_eq_spec: "parse_response P raw = spec_process P raw"
proof (cases "spec_fenced (trim raw)")
  case False
  then show ?thesis
    by (simp add: parse_response_def spec_process_def strip_fence_eq startsWith_def
        endsWith_def Let_def)
next
  case True
  show ?thesis
  proof (cases "spec_fence_inner (trim raw) = []")
    case e: True
    have "\<not> prefix ''{'' (trim raw)" using True by (rule spec_fenced_not_brace)
    then show ?thesis using True e
      by (simp add: parse_response_def spec_process_def strip_fence_eq startsWith_def
          endsWith_def Let_def)
  next
    case n: False
    then show ?thesis using True
      by (simp add: parse_response_def spec_process_def strip_fence_eq startsWith_def
          endsWith_def Let_def)
  qed
qed


lemma trim_ws_both:
  "\<forall>x\<in>set w1. is_ws x \<Longrightarrow> \<forall>x\<in>set w2. is_ws x \<Longrightarrow> trim (w1 @ j @ w2) = trim j"
  using trim_ws_left [of w1 "j @ w2"] trim_ws_right [of w2 j] by simp

lemma trim_fenced:
  assumes "\<forall>x\<in>set w0. is_ws x" "\<forall>x\<in>set w3. is_ws x"
  shows "trim (w0 @ fenced label w1 j w2 @ w3) = fenced label w1 j w2"
proof -
  have "trim (fenced label w1 j w2) = fenced label w1 j w2"
    by (rule trim_fixed) (simp add: fenced_def)
  then show ?thesis using assms trim_ws_both by simp
qed

lemma spec_fenced_fenced: "spec_fenced (fenced label w1 j w2)"
  by (simp add: spec_fenced_def fenced_def suffix_def)

lemma not_prefix_json_ws:
  assumes "\<forall>x\<in>set w2. is_ws x" "\<not> prefix ''json'' j"
  shows "\<not> prefix ''json'' (j @ w2 @ ''```'')"
proof
  assume "prefix ''json'' (j @ w2 @ ''```'')"
  then obtain us where us: "''json'' = j @ us" "prefix us (w2 @ ''```'')"
    using assms(2) by (auto simp: prefix_append)
  have "us \<noteq> []" using us(1) assms(2) by auto
  then obtain c cs where c: "us = c # cs" by (cases us) auto
  then have "c \<in> set ''json''" using us(1) by (metis in_set_conv_decomp)
  then have nws: "\<not> is_ws c" "c \<noteq> CHR ''`''" by (auto simp: is_ws_def)
  have "hd (w2 @ ''```'') = c" using us(2) c by (auto simp: prefix_def)
  then show False using nws assms(1) by (cases w2) auto
qed

lemma spec_fence_inner_fenced:
  assumes ws: "\<forall>x\<in>set w1. is_ws x" "\<forall>x\<in>set w2. is_ws x"
    and label: "label = [] \<or> label = ''json''"
    and amb: "label = [] \<and> w1 = [] \<longrightarrow> \<not> prefix ''json'' j"
  shows "spec_fence_inner (fenced label w1 j w2) = trim j"
proof -
  have body: "fence_body (w1 @ j @ w2 @ ''```'') = w1 @ j @ w2"
    using fence_body_append [of "w1 @ j @ w2"] by simp
  show ?thesis
  proof (cases "label = []")
    case False
    then have "label = ''json''" using label by simp
    then show ?thesis using ws body
      by (simp add: spec_fence_inner_def fenced_def trim_ws_both)
  next
    case True
    have "\<not> prefix ''json'' (w1 @ j @ w2 @ ''```'')"
    proof (cases w1)
      case Nil
      then show ?thesis using True amb ws(2) not_prefix_json_ws by simp
    next
      case (Cons x xs)
      then have "is_ws x" using ws(1) by simp
      then have "x \<noteq> CHR ''j''" by (auto simp: is_ws_def)
      then show ?thesis using Cons by simp
    qed
    then show ?thesis using True ws body
      by (simp add: spec_fence_inner_def fenced_def trim_ws_both)
  qed
qed

lemma fenced_same_as_unfenced:
  assumes "\<forall>x\<in>set w0. is_ws x" "\<forall>x\<in>set w1. is_ws x" "\<forall>x\<in>set w2. is_ws x" "\<forall>x\<in>set w3. is_ws x"
    and "label = [] \<or> label = ''json''"
    and "label = [] \<and> w1 = [] \<longrightarrow> \<not> prefix ''json'' j"
    and "\<not> prefix ''```'' (trim j)"
  shows "parse_response P (w0 @ fenced label w1 j w2 @ w3) = parse_response P j"
proof -
  have "\<not> spec_fenced (trim j)" using assms(7) by (simp add: spec_fenced_def)
  then show ?thesis
    using assms trim_fenced [of w0 w3 label w1 j w2] spec_fenced_fenced [of label w1 j w2]
      spec_fence_inner_fenced [of w1 w2 label j]
    by (simp add: parse_response_eq_spec spec_process_def Let_def)
qed

section \<open>The retry loop\<close>

lemma toString_maxRetries: "toString maxRetries = ''3''"
  by (subst toString.simps) (simp add: maxRetries_def)

lemma attempt_loop_step_ok:
  "attempt \<le> maxRetries \<Longrightarrow> attempt_body F P (svc (calls w)) = Inr r \<Longrightarrow>
   attempt_loop F P svc attempt le w = (Inr r, w\<lparr>calls := Suc (calls w)\<rparr>)"
  by (subst attempt_loop.simps) (simp add: generateContent_def)

lemma attempt_loop_step_retry:
  "attempt < maxRetries \<Longrightarrow> attempt_body F P (svc (calls w)) = Inl e \<Longrightarrow>
   attempt_loop F P svc attempt le w =
     attempt_loop F P svc (Suc attempt) (Some (as_Error e)) (w\<lparr>calls := Suc (calls w)\<rparr>)"
  by (subst attempt_loop.simps) (simp add: generateContent_def as_Error_def)

lemma attempt_loop_step_last:
  "attempt = maxRetries \<Longrightarrow> attempt_body F P (svc (calls w)) = Inl e \<Longrightarrow>
   attempt_loop F P svc attempt le w =
     (Inl (Error (''Could not generate ASCII art after 3 attempts: '' @ as_Error e)),
      w\<lparr>calls := Suc (calls w)\<rparr>)"
  by (subst attempt_loop.simps) (simp add: generateContent_def as_Error_def toString_maxRetries)

lemma attempt_loop_success:
  "attempt + i \<le> maxRetries \<Longrightarrow>
   \<forall>j<i. isl (attempt_body F P (svc (calls w + j))) \<Longrightarrow>
   attempt_body F P (svc (calls w + i)) = Inr r \<Longrightarrow>
   attempt_loop F P svc attempt le w = (Inr r, w\<lparr>calls := calls w + i + 1\<rparr>)"
proof (induction i arbitrary: attempt le w)
  case 0
  then show ?case using attempt_loop_step_ok [of attempt F P svc w r le] by simp
next
  case (Suc i)
  from Suc.prems(2) have "isl (attempt_body F P (svc (calls w)))" by (metis add.right_neutral zero_less_Suc)
  then obtain e where e: "attempt_body F P (svc (calls w)) = Inl e" by (auto simp: isl_def)
  let ?w = "w\<lparr>calls := Suc (calls w)\<rparr>"
  have step: "attempt_loop F P svc attempt le w = attempt_loop F P svc (Suc attempt) (Some (as_Error e)) ?w"
    using Suc.prems(1) e by (intro attempt_loop_step_retry) auto
  have "Suc attempt + i \<le> maxRetries" using Suc.prems(1) by simp
  moreover have "\<forall>j<i. isl (attempt_body F P (svc (calls ?w + j)))" using Suc.prems(2) by auto
  moreover have "attempt_body F P (svc (calls ?w + i)) = Inr r" using Suc.prems(3) by simp
  ultimately have "attempt_loop F P svc (Suc attempt) (Some (as_Error e)) ?w = (Inr r, ?w\<lparr>calls := calls ?w + i + 1\<rparr>)"
    by (rule Suc.IH)
  then show ?case using step by simp
qed

lemma attempt_loop_exhausted:
  "attempt + i = maxRetries \<Longrightarrow>
   \<forall>j<i. isl (attempt_body F P (svc (calls w + j))) \<Longrightarrow>
   attempt_body F P (svc (calls w + i)) = Inl e \<Longrightarrow>
   attempt_loop F P svc attempt le w =
     (Inl (Error (''Could not generate ASCII art after 3 attempts: '' @ as_Error e)),
      w\<lparr>calls := calls w + i + 1\<rparr>)"
proof (induction i arbitrary: attempt le w)
  case 0
  then show ?case using attempt_loop_step_last [of attempt F P svc w e le] by simp
next
  case (Suc i)
  from Suc.prems(2) have "isl (attempt_body F P (svc (calls w)))" by (metis add.right_neutral zero_less_Suc)
  then obtain e0 where e0: "attempt_body F P (svc (calls w)) = Inl e0" by (auto simp: isl_def)
  let ?w = "w\<lparr>calls := Suc (calls w)\<rparr>"
  have step: "attempt_loop F P svc attempt le w = attempt_loop F P svc (Suc attempt) (Some (as_Error e0)) ?w"
    using Suc.prems(1) e0 by (intro attempt_loop_step_retry) auto
  have "Suc attempt + i = maxRetries" using Suc.prems(1) by simp
  moreover have "\<forall>j<i. isl (attempt_body F P (svc (calls ?w + j)))" using Suc.prems(2) by auto
  moreover have "attempt_body F P (svc (calls ?w + i)) = Inl e" using Suc.prems(3) by simp
  ultimately have "attempt_loop F P svc (Suc attempt) (Some (as_Error e0)) ?w =
      (Inl (Error (''Could not generate ASCII art after 3 attempts: '' @ as_Error e)), ?w\<lparr>calls := calls ?w + i + 1\<rparr>)"
    by (rule Suc.IH)
  then show ?case using step by simp
qed

lemma attempt_loop_Inr:
  "attempt_loop F P svc attempt le w = (Inr r, w') \<Longrightarrow>
   \<exists>i. attempt + i \<le> maxRetries \<and> attempt_body F P (svc (calls w + i)) = Inr r \<and>
       (\<forall>j<i. isl (attempt_body F P (svc (calls w + j)))) \<and> w' = w\<lparr>calls := calls w + i + 1\<rparr>"
proof (induction F P svc attempt le w rule: attempt_loop.induct)
  case (1 F P svc attempt le w)
  show ?case
  proof (cases "attempt \<le> maxRetries")
    case False
    then show ?thesis using "1.prems" by (subst (asm) attempt_loop.simps) simp
  next
    case le: True
    show ?thesis
    proof (cases "attempt_body F P (svc (calls w))")
      case (Inr r0)
      then have "attempt_loop F P svc attempt le w = (Inr r0, w\<lparr>calls := Suc (calls w)\<rparr>)"
        using le by (rule attempt_loop_step_ok[rotated])
      then have "r0 = r" "w' = w\<lparr>calls := Suc (calls w)\<rparr>" using "1.prems" by auto
      then show ?thesis using Inr le by (intro exI [of _ 0]) simp
    next
      case (Inl e)
      show ?thesis
      proof (cases "attempt = maxRetries")
        case True
        then show ?thesis using "1.prems" Inl attempt_loop_step_last [of attempt F P svc w e le] by simp
      next
        case False
        then have lt: "attempt < maxRetries" using le by simp
        let ?w = "w\<lparr>calls := Suc (calls w)\<rparr>"
        have step: "attempt_loop F P svc attempt le w = attempt_loop F P svc (Suc attempt) (Some (as_Error e)) ?w"
          using lt Inl by (rule attempt_loop_step_retry)
        have "\<exists>i. attempt + 1 + i \<le> maxRetries \<and> attempt_body F P (svc (calls (snd (generateContent svc w)) + i)) = Inr r \<and>
             (\<forall>j<i. isl (attempt_body F P (svc (calls (snd (generateContent svc w)) + j)))) \<and>
             w' = (snd (generateContent svc w))\<lparr>calls := calls (snd (generateContent svc w)) + i + 1\<rparr>"
          using "1.IH" [of e "as_Error e"] le False Inl step "1.prems"
          by (simp add: generateContent_def as_Error_def)
        then obtain i where i: "Suc attempt + i \<le> maxRetries" "attempt_body F P (svc (Suc (calls w) + i)) = Inr r"
          "\<forall>j<i. isl (attempt_body F P (svc (Suc (calls w) + j)))" "w' = w\<lparr>calls := Suc (calls w) + i + 1\<rparr>"
          by (auto simp: generateContent_def)
        have "\<forall>j<Suc i. isl (attempt_body F P (svc (calls w + j)))"
        proof (intro allI impI)
          fix j assume "j < Suc i"
          then show "isl (attempt_body F P (svc (calls w + j)))"
            using i(3) Inl by (cases j) auto
        qed
        then show ?thesis using i by (intro exI [of _ "Suc i"]) simp
      qed
    qed
  qed
qed

lemma getAi_present: "\<not> js_not apiKey \<Longrightarrow> \<exists>k. getAi apiKey = Inr (GoogleGenAI k)"
  by (auto simp: js_not_def getAi_def split: option.splits)

lemma getAi_missing:
  "js_not apiKey \<Longrightarrow> getAi apiKey = Inl (Error ''API Key is missing. Please provide a valid API key.'')"
  by (auto simp: js_not_def getAi_def split: option.splits)

lemma generate_present:
  "\<not> js_not apiKey \<Longrightarrow>
   generateAsciiArt_cfg F P svc topic language apiKey style w = attempt_loop F P svc 1 None w"
  using getAi_present [of apiKey] by (auto simp: generateAsciiArt_cfg_def)

lemmas sample_eval =
  attempt_body_def parse_response_def strip_fence_eq spec_fenced_def spec_fence_inner_def
  fence_body_def trim_def trimStart_def trimEnd_def is_ws_def startsWith_def endsWith_def
  build_result_def property_def sample_parse_def sample_fenced_text_def sample_service_def
  failing_service_def text_service_def blank_service_def Let_def suffix_to_prefix

lemma sample_service_0: "attempt_body F sample_parse (sample_service 0) = Inl (Error ''network down'')"
  by (simp add: sample_eval)

lemma sample_service_1:
  "attempt_body F sample_parse (sample_service 1) = Inl (Error ''Invalid or empty ASCII art in response'')"
  by (simp add: sample_eval)

lemma sample_service_2:
  "attempt_body F sample_parse (sample_service 2) = Inr \<lparr>art = ''x'', text' = None\<rparr>"
  by (simp add: sample_eval)

lemma failing_service_0:
  "attempt_body F sample_parse (failing_service 0) = Inl (Error ''Response is not a valid JSON object'')"
  by (simp add: sample_eval)

lemma failing_service_1: "attempt_body F sample_parse (failing_service 1) = Inl NonError"
  by (simp add: sample_eval)

lemma failing_service_2: "attempt_body F sample_parse (failing_service 2) = Inl (Error ''quota exceeded'')"
  by (simp add: sample_eval)

section \<open>Results, streams and samples\<close>

lemma build_result_Inr:
  "build_result F obj = Inr r \<Longrightarrow>
     property obj ''art'' = Some (JStr (art r)) \<and> trim (art r) \<noteq> [] \<and>
     text' r = (if F \<and> truthy (property obj ''text'') then property obj ''text'' else None)"
  by (auto simp: build_result_def Let_def
      split: option.splits jsvalue.splits if_splits)

lemma build_result_rejects:
  "\<forall>a. property obj ''art'' = Some (JStr a) \<longrightarrow> trim a = [] \<Longrightarrow>
   build_result F obj = Inl (Error ''Invalid or empty ASCII art in response'')"
  by (auto simp: build_result_def Let_def split: option.splits jsvalue.splits)

lemma attempt_body_Inr:
  "attempt_body F P out = Inr r \<Longrightarrow>
   \<exists>t obj. out = Resolved t \<and> parse_response P t = Inr obj \<and> build_result F obj = Inr r"
  by (auto simp: attempt_body_def split: call_outcome.splits sum.splits)

lemma generate_Inr:
  assumes "generateAsciiArt_cfg F P svc topic language apiKey style w = (Inr r, w')"
  shows "\<exists>i. i < maxRetries \<and> attempt_body F P (svc (calls w + i)) = Inr r \<and>
             w' = w\<lparr>calls := calls w + i + 1\<rparr>"
proof -
  have "attempt_loop F P svc 1 None w = (Inr r, w')"
    using assms by (auto simp: generateAsciiArt_cfg_def split: sum.splits)
  then obtain i where "1 + i \<le> maxRetries" "attempt_body F P (svc (calls w + i)) = Inr r"
    "w' = w\<lparr>calls := calls w + i + 1\<rparr>"
    using attempt_loop_Inr [of F P svc 1 None w r w'] by blast
  then show ?thesis by (intro exI [of _ i]) simp
qed

lemma text_service_flag:
  "attempt_body F sample_parse (text_service n) =
     Inr \<lparr>art = ''x'', text' = (if F then Some (JStr ''T'') else None)\<rparr>"
  by (simp add: sample_eval)

lemma sample_generate:
  "generateAsciiArt_cfg F sample_parse sample_service topic language (Some ''key'') style \<lparr>calls = 0\<rparr> =
     (Inr \<lparr>art = ''x'', text' = None\<rparr>, \<lparr>calls = 3\<rparr>)"
proof -
  have "\<forall>j<2. isl (attempt_body F sample_parse (sample_service (calls \<lparr>calls = 0\<rparr> + j)))"
    using sample_service_0 sample_service_1 by (simp add: less_2_cases_iff)
  moreover have "attempt_body F sample_parse (sample_service (calls \<lparr>calls = 0\<rparr> + 2)) =
      Inr \<lparr>art = ''x'', text' = None\<rparr>"
    using sample_service_2 by (simp add: numeral_2_eq_2)
  moreover have "1 + 2 \<le> maxRetries" by (simp add: maxRetries_def)
  ultimately have "attempt_loop F sample_parse sample_service 1 None \<lparr>calls = 0\<rparr> =
      (Inr \<lparr>art = ''x'', text' = None\<rparr>, \<lparr>calls = 0\<rparr>\<lparr>calls := calls \<lparr>calls = 0\<rparr> + 2 + 1\<rparr>)"
    using attempt_loop_success [of 1 2 F sample_parse sample_service "\<lparr>calls = 0\<rparr>"] by blast
  then show ?thesis by (simp add: generate_present js_not_def)
qed

lemma text_generate:
  "generateAsciiArt_cfg F sample_parse text_service topic language (Some ''key'') style \<lparr>calls = 0\<rparr> =
     (Inr \<lparr>art = ''x'', text' = (if F then Some (JStr ''T'') else None)\<rparr>, \<lparr>calls = 1\<rparr>)"
  using attempt_loop_step_ok [of 1 F sample_parse text_service "\<lparr>calls = 0\<rparr>" _ None]
    text_service_flag [of F 0]
  by (simp add: generate_present js_not_def maxRetries_def)

lemma stream_present:
  "\<not> js_not apiKey \<Longrightarrow>
   streamDefinition svc topic language apiKey w =
     (case svc (calls w) of
        StreamRejected error \<Rightarrow>
          (([stream_error_fragment topic error], Threw (Error (errorMessage error))),
           w\<lparr>calls := Suc (calls w)\<rparr>)
      | Streamed chunks Completed \<Rightarrow>
          ((for_await_chunks chunks, Returned), w\<lparr>calls := Suc (calls w)\<rparr>)
      | Streamed chunks (Failed error) \<Rightarrow>
          ((for_await_chunks chunks @ [stream_error_fragment topic error],
            Threw (Error (errorMessage error))), w\<lparr>calls := Suc (calls w)\<rparr>))"
  using getAi_present [of apiKey]
  by (auto simp: streamDefinition_def generateContentStream_def
      split: stream_outcome.splits stream_end.splits)

lemma for_await_chunks_filter:
  "map Some (for_await_chunks chunks) = filter (\<lambda>c. c \<noteq> None \<and> c \<noteq> Some []) chunks"
  by (induction chunks) (auto split: option.splits)

lemma for_await_chunks_nonempty: "f \<in> set (for_await_chunks chunks) \<Longrightarrow> f \<noteq> []"
  by (induction chunks) (auto split: option.splits if_splits)

lemma stream_error_fragment_nonempty: "stream_error_fragment topic e \<noteq> []"
  by (simp add: stream_error_fragment_def)

lemma attempt_loop_calls:
  "attempt \<le> maxRetries \<Longrightarrow> calls w < calls (snd (attempt_loop F P svc attempt le w))"
proof (induction "maxRetries - attempt" arbitrary: attempt le w)
  case 0
  then have eq: "attempt = maxRetries" by simp
  show ?case
  proof (cases "attempt_body F P (svc (calls w))")
    case (Inl e)
    then show ?thesis using eq attempt_loop_step_last [of attempt F P svc w e le] by simp
  next
    case (Inr r)
    then show ?thesis using eq attempt_loop_step_ok [of attempt F P svc w r le] by simp
  qed
next
  case (Suc n)
  then have lt: "attempt < maxRetries" by simp
  show ?case
  proof (cases "attempt_body F P (svc (calls w))")
    case (Inr r)
    then show ?thesis using lt attempt_loop_step_ok [of attempt F P svc w r le] by simp
  next
    case (Inl e)
    let ?w = "w\<lparr>calls := Suc (calls w)\<rparr>"
    have "n = maxRetries - Suc attempt" using Suc.hyps(2) by simp
    moreover have "Suc attempt \<le> maxRetries" using lt by simp
    ultimately have "calls ?w < calls (snd (attempt_loop F P svc (Suc attempt) (Some (as_Error e)) ?w))"
      by (rule Suc.hyps(1))
    then show ?thesis using lt Inl attempt_loop_step_retry [of attempt F P svc w e le] by simp
  qed
qed

lemma attempt_loop_skip:
  "attempt + n \<le> maxRetries \<Longrightarrow>
   \<forall>j<n. isl (attempt_body F P (svc (calls w + j))) \<Longrightarrow>
   \<exists>le'. attempt_loop F P svc attempt le w =
           attempt_loop F P svc (attempt + n) le' (w\<lparr>calls := calls w + n\<rparr>)"
proof (induction n arbitrary: attempt le w)
  case 0
  show ?case by (intro exI [of _ le]) simp
next
  case (Suc n)
  from Suc.prems(2) have "isl (attempt_body F P (svc (calls w)))"
    by (metis add.right_neutral zero_less_Suc)
  then obtain e where e: "attempt_body F P (svc (calls w)) = Inl e" by (auto simp: isl_def)
  let ?w = "w\<lparr>calls := Suc (calls w)\<rparr>"
  have step: "attempt_loop F P svc attempt le w =
      attempt_loop F P svc (Suc attempt) (Some (as_Error e)) ?w"
    using Suc.prems(1) e by (intro attempt_loop_step_retry) auto
  have "Suc attempt + n \<le> maxRetries" using Suc.prems(1) by simp
  moreover have "\<forall>j<n. isl (attempt_body F P (svc (calls ?w + j)))" using Suc.prems(2) by auto
  ultimately obtain le' where "attempt_loop F P svc (Suc attempt) (Some (as_Error e)) ?w =
      attempt_loop F P svc (Suc attempt + n) le' (?w\<lparr>calls := calls ?w + n\<rparr>)"
    using Suc.IH by blast
  then show ?case using step by (intro exI [of _ le']) simp
qed

lemma attempt_body_blank:
  "parse_response P t = Inr obj \<Longrightarrow>
   \<forall>a. property obj ''art'' = Some (JStr a) \<longrightarrow> trim a = [] \<Longrightarrow>
   attempt_body F P (Resolved t) = Inl (Error ''Invalid or empty ASCII art in response'')"
  using build_result_rejects [of obj F] by (simp add: attempt_body_def)

lemma attempt_body_accepts:
  "parse_response P t = Inr obj \<Longrightarrow> property obj ''art'' = Some (JStr a) \<Longrightarrow> trim a \<noteq> [] \<Longrightarrow>
   \<exists>r. attempt_body F P (Resolved t) = Inr r \<and> art r = a"
  by (simp add: attempt_body_def build_result_def Let_def)

lemma generate_after_failures:
  assumes "\<not> js_not apiKey" "i + 1 < maxRetries"
    and "\<forall>j<Suc i. isl (attempt_body F P (svc (calls w + j)))"
  shows "calls w + i + 2 \<le> calls (snd (generateAsciiArt_cfg F P svc topic language apiKey style w))"
proof -
  have "1 + Suc i \<le> maxRetries" using assms(2) by simp
  then obtain le' where "attempt_loop F P svc 1 None w =
      attempt_loop F P svc (1 + Suc i) le' (w\<lparr>calls := calls w + Suc i\<rparr>)"
    using attempt_loop_skip [of 1 "Suc i" F P svc w None] assms(3) by blast
  moreover have "calls (w\<lparr>calls := calls w + Suc i\<rparr>) <
      calls (snd (attempt_loop F P svc (1 + Suc i) le' (w\<lparr>calls := calls w + Suc i\<rparr>)))"
    using assms(2) by (intro attempt_loop_calls) simp
  ultimately show ?thesis using assms(1) by (simp add: generate_present)
qed

lemma blank_service_fails:
  "attempt_body F sample_parse (blank_service n) =
     Inl (Error ''Invalid or empty ASCII art in response'')"
  by (simp add: sample_eval)

section \<open>Claims\<close>

text \<open>
  In the statements below \<open>F\<close> is the value of \<^verbatim>\<open>ENABLE_ASCII_TEXT_GENERATION\<close>, \<open>P\<close> is
  \<^verbatim>\<open>JSON.parse\<close> and \<open>svc\<close> gives the outcome of each request; \<open>generateAsciiArt\<close> is
  \<open>generateAsciiArt_cfg\<close> at the flag value of the source. The outcome of attempt number
  \<open>i + 1\<close> of a call that starts in world \<open>w\<close> is
  \<open>attempt_body F P (svc (calls w + i))\<close>.
\<close>

text \<open>
  C1. With a credential present, if the attempts before attempt \<open>i + 1\<close> all fail (the
  request is refused or the response is rejected) and attempt \<open>i + 1\<close> passes validation,
  where \<open>i + 1\<close> is within the bound of 3, then \<open>generateAsciiArt\<close> returns the result
  built from that attempt's response and has sent exactly \<open>i + 1\<close> requests: it returns
  at once on the first success. For \<open>i = 2\<close>: attempts 1 and 2 fail, attempt 3 succeeds,
  the result is the one of attempt 3 and exactly 3 requests are sent.
\<close>

theorem generate_returns_first_success:
  assumes "\<not> js_not apiKey"
    and "i < maxRetries"
    and "\<forall>j<i. isl (attempt_body F P (svc (calls w + j)))"
    and "attempt_body F P (svc (calls w + i)) = Inr r"
  shows "generateAsciiArt_cfg F P svc topic language apiKey style w =
           (Inr r, w\<lparr>calls := calls w + i + 1\<rparr>)"
proof -
  have "1 + i \<le> maxRetries" using assms(2) by simp
  then have "attempt_loop F P svc 1 None w = (Inr r, w\<lparr>calls := calls w + i + 1\<rparr>)"
    using assms(3,4) by (rule attempt_loop_success)
  then show ?thesis using assms(1) by (simp add: generate_present)
qed

theorem generate_returns_first_success_witness:
  "\<not> js_not (Some ''key'') \<and> 2 < maxRetries \<and>
   isl (attempt_body ENABLE_ASCII_TEXT_GENERATION sample_parse (sample_service 0)) \<and>
   isl (attempt_body ENABLE_ASCII_TEXT_GENERATION sample_parse (sample_service 1)) \<and>
   attempt_body ENABLE_ASCII_TEXT_GENERATION sample_parse (sample_service 2) =
     Inr \<lparr>art = ''x'', text' = None\<rparr> \<and>
   generateAsciiArt sample_parse sample_service ''cat'' ''English'' (Some ''key'') ''Minimalist''
       \<lparr>calls = 0\<rparr> =
     (Inr \<lparr>art = ''x'', text' = None\<rparr>, \<lparr>calls = 3\<rparr>)"
proof -
  let ?F = ENABLE_ASCII_TEXT_GENERATION
  have h1: "\<not> js_not (Some ''key'')" by (simp add: js_not_def)
  have h2: "2 < maxRetries" by (simp add: maxRetries_def)
  have h3: "\<forall>j<2. isl (attempt_body ?F sample_parse (sample_service (calls \<lparr>calls = 0\<rparr> + j)))"
    using sample_service_0 sample_service_1 by (simp add: less_2_cases_iff)
  have h4: "attempt_body ?F sample_parse (sample_service (calls \<lparr>calls = 0\<rparr> + 2)) =
      Inr \<lparr>art = ''x'', text' = None\<rparr>"
    using sample_service_2 by (simp add: numeral_2_eq_2)
  show ?thesis
    using generate_returns_first_success [OF h1 h2 h3 h4, of "''cat''" "''English''" "''Minimalist''"]
      h1 h2 sample_service_0 [of ?F] sample_service_1 [of ?F] sample_service_2 [of ?F]
    by (simp add: generateAsciiArt_def)
qed

text \<open>
  C2. With a credential present, if all three attempts fail (the request is refused, the
  response is rejected by validation, or parsing fails), \<open>generateAsciiArt\<close> fails with one
  error after exactly 3 requests. Its message is
  \<^verbatim>\<open>Could not generate ASCII art after 3 attempts: \<close> followed by the message of the
  failure of the third attempt (when the value thrown there is not an \<^verbatim>\<open>Error\<close> and so has
  no message, by the fixed text \<^verbatim>\<open>Unknown error occurred\<close>). The failures of attempts 1 and
  2 do not occur in the result.
\<close>

theorem generate_fails_after_three_attempts:
  assumes "\<not> js_not apiKey"
    and "isl (attempt_body F P (svc (calls w)))"
    and "isl (attempt_body F P (svc (calls w + 1)))"
    and "attempt_body F P (svc (calls w + 2)) = Inl e"
  shows "generateAsciiArt_cfg F P svc topic language apiKey style w =
           (Inl (Error (''Could not generate ASCII art after 3 attempts: '' @
                        (case e of Error m \<Rightarrow> m | NonError \<Rightarrow> ''Unknown error occurred''))),
            w\<lparr>calls := calls w + 3\<rparr>)"
proof -
  have "\<forall>j<2. isl (attempt_body F P (svc (calls w + j)))"
    using assms(2,3) by (simp add: less_2_cases_iff)
  moreover have "1 + 2 = maxRetries" by (simp add: maxRetries_def)
  ultimately have "attempt_loop F P svc 1 None w =
      (Inl (Error (''Could not generate ASCII art after 3 attempts: '' @ as_Error e)),
       w\<lparr>calls := calls w + 2 + 1\<rparr>)"
    using assms(4) attempt_loop_exhausted [of 1 2 F P svc w e None] by simp
  then show ?thesis using assms(1) by (simp add: generate_present as_Error_def)
qed

theorem generate_fails_after_three_attempts_witness:
  "\<not> js_not (Some ''key'') \<and>
   isl (attempt_body ENABLE_ASCII_TEXT_GENERATION sample_parse (failing_service 0)) \<and>
   isl (attempt_body ENABLE_ASCII_TEXT_GENERATION sample_parse (failing_service 1)) \<and>
   attempt_body ENABLE_ASCII_TEXT_GENERATION sample_parse (failing_service 2) =
     Inl (Error ''quota exceeded'') \<and>
   generateAsciiArt sample_parse failing_service ''cat'' ''English'' (Some ''key'') ''Minimalist''
       \<lparr>calls = 0\<rparr> =
     (Inl (Error ''Could not generate ASCII art after 3 attempts: quota exceeded''),
      \<lparr>calls = 3\<rparr>)"
proof -
  let ?F = ENABLE_ASCII_TEXT_GENERATION
  have h1: "\<not> js_not (Some ''key'')" by (simp add: js_not_def)
  have h2: "isl (attempt_body ?F sample_parse (failing_service (calls \<lparr>calls = 0\<rparr>)))"
    using failing_service_0 [of ?F] by simp
  have h3: "isl (attempt_body ?F sample_parse (failing_service (calls \<lparr>calls = 0\<rparr> + 1)))"
    using failing_service_1 [of ?F] by simp
  have h4: "attempt_body ?F sample_parse (failing_service (calls \<lparr>calls = 0\<rparr> + 2)) =
      Inl (Error ''quota exceeded'')"
    using failing_service_2 [of ?F] by (simp add: numeral_2_eq_2)
  show ?thesis
    using generate_fails_after_three_attempts [OF h1 h2 h3 h4, of "''cat''" "''English''" "''Minimalist''"]
      h1 failing_service_0 [of ?F] failing_service_1 [of ?F] failing_service_2 [of ?F]
    by (simp add: generateAsciiArt_def as_Error_def)
qed

text \<open>
  C3. With a missing credential (absent or empty) \<open>generateAsciiArt\<close> and
  \<open>getRandomWord\<close> fail with the configuration error
  \<^verbatim>\<open>API Key is missing. Please provide a valid API key.\<close>, whatever the service would
  answer, and leave the number of requests sent unchanged: no request is made and the
  retry loop is never entered.
\<close>

theorem missing_credential_fails_before_any_call:
  assumes "js_not apiKey"
  shows "generateAsciiArt P svc topic language apiKey style w =
           (Inl (Error ''API Key is missing. Please provide a valid API key.''), w) \<and>
         getRandomWord svc language apiKey w =
           (Inl (Error ''API Key is missing. Please provide a valid API key.''), w)"
  using getAi_missing [OF assms]
  by (simp add: generateAsciiArt_def generateAsciiArt_cfg_def getRandomWord_def)

theorem missing_credential_fails_before_any_call_witness:
  "js_not (Some []) \<and> js_not None \<and>
   generateAsciiArt sample_parse sample_service ''cat'' ''English'' (Some []) ''Minimalist''
       \<lparr>calls = 0\<rparr> =
     (Inl (Error ''API Key is missing. Please provide a valid API key.''), \<lparr>calls = 0\<rparr>) \<and>
   getRandomWord sample_service ''English'' None \<lparr>calls = 0\<rparr> =
     (Inl (Error ''API Key is missing. Please provide a valid API key.''), \<lparr>calls = 0\<rparr>)"
proof -
  have h1: "js_not (Some [])" by (simp add: js_not_def)
  have h2: "js_not None" by (simp add: js_not_def)
  show ?thesis
    using missing_credential_fails_before_any_call [OF h1, of sample_parse sample_service
        "''cat''" "''English''" "''Minimalist''" "\<lparr>calls = 0\<rparr>"]
      missing_credential_fails_before_any_call [OF h2, of sample_parse sample_service
        "''cat''" "''English''" "''Minimalist''" "\<lparr>calls = 0\<rparr>"] h1 h2
    by simp
qed

text \<open>
  C4. Every result that \<open>generateAsciiArt\<close> returns has an \<^verbatim>\<open>art\<close> that is not empty
  after trimming, and it is the \<^verbatim>\<open>art\<close> string of the response of the attempt that
  returned. A parsed response whose \<^verbatim>\<open>art\<close> is absent, is not a string, or is a string
  that is empty after trimming makes its attempt fail with
  \<^verbatim>\<open>Invalid or empty ASCII art in response\<close>, and a parsed response whose \<^verbatim>\<open>art\<close> is a
  string that is not empty after trimming is accepted with that \<^verbatim>\<open>art\<close>. With a
  credential present, when such a rejection happens in attempt \<open>i + 1\<close> after failures of
  all earlier attempts and attempts remain, another request is sent: the call ends with at
  least \<open>i + 2\<close> requests made, and if the response of attempt \<open>i + 2\<close> passes, its result
  is returned after exactly \<open>i + 2\<close> requests. When the rejected attempt is the third and
  last, the call fails after exactly 3 requests with the rejection's message behind the
  attempt count.
\<close>

theorem art_is_never_blank:
  "(generateAsciiArt_cfg F P svc topic language apiKey style w = (Inr r, w') \<longrightarrow>
      trim (art r) \<noteq> [] \<and>
      (\<exists>i t obj. i < maxRetries \<and> w' = w\<lparr>calls := calls w + i + 1\<rparr> \<and>
         svc (calls w + i) = Resolved t \<and> parse_response P t = Inr obj \<and>
         property obj ''art'' = Some (JStr (art r)))) \<and>
   (parse_response P t = Inr obj \<longrightarrow>
      ((\<forall>a. property obj ''art'' = Some (JStr a) \<longrightarrow> trim a = []) \<longrightarrow>
         attempt_body F P (Resolved t) = Inl (Error ''Invalid or empty ASCII art in response'')) \<and>
      (property obj ''art'' = Some (JStr a) \<and> trim a \<noteq> [] \<longrightarrow>
         (\<exists>r. attempt_body F P (Resolved t) = Inr r \<and> art r = a))) \<and>
   (\<not> js_not apiKey \<and> (\<forall>j<i. isl (attempt_body F P (svc (calls w + j)))) \<and>
    svc (calls w + i) = Resolved t \<and> parse_response P t = Inr obj \<and>
    (\<forall>a. property obj ''art'' = Some (JStr a) \<longrightarrow> trim a = []) \<longrightarrow>
      (i + 1 < maxRetries \<longrightarrow>
         calls w + i + 2 \<le>
           calls (snd (generateAsciiArt_cfg F P svc topic language apiKey style w)) \<and>
         (\<forall>r2. attempt_body F P (svc (calls w + i + 1)) = Inr r2 \<longrightarrow>
            generateAsciiArt_cfg F P svc topic language apiKey style w =
              (Inr r2, w\<lparr>calls := calls w + i + 2\<rparr>))) \<and>
      (i + 1 = maxRetries \<longrightarrow>
         generateAsciiArt_cfg F P svc topic language apiKey style w =
           (Inl (Error (''Could not generate ASCII art after 3 attempts: '' @
                        ''Invalid or empty ASCII art in response'')),
            w\<lparr>calls := calls w + 3\<rparr>)))"
proof -
  have safe: "trim (art r) \<noteq> [] \<and>
      (\<exists>i t obj. i < maxRetries \<and> w' = w\<lparr>calls := calls w + i + 1\<rparr> \<and>
         svc (calls w + i) = Resolved t \<and> parse_response P t = Inr obj \<and>
         property obj ''art'' = Some (JStr (art r)))"
    if g: "generateAsciiArt_cfg F P svc topic language apiKey style w = (Inr r, w')"
  proof -
    obtain k where k: "k < maxRetries" "attempt_body F P (svc (calls w + k)) = Inr r"
      "w' = w\<lparr>calls := calls w + k + 1\<rparr>"
      using generate_Inr [OF g] by blast
    obtain t' obj' where o: "svc (calls w + k) = Resolved t'" "parse_response P t' = Inr obj'"
      "build_result F obj' = Inr r"
      using attempt_body_Inr [OF k(2)] by blast
    have b: "property obj' ''art'' = Some (JStr (art r))" "trim (art r) \<noteq> []"
      using build_result_Inr [OF o(3)] by simp_all
    have "k < maxRetries \<and> w' = w\<lparr>calls := calls w + k + 1\<rparr> \<and>
         svc (calls w + k) = Resolved t' \<and> parse_response P t' = Inr obj' \<and>
         property obj' ''art'' = Some (JStr (art r))"
      using k(1,3) o(1,2) b(1) by simp
    then have "\<exists>i t obj. i < maxRetries \<and> w' = w\<lparr>calls := calls w + i + 1\<rparr> \<and>
         svc (calls w + i) = Resolved t \<and> parse_response P t = Inr obj \<and>
         property obj ''art'' = Some (JStr (art r))"
      by (intro exI)
    then show ?thesis using b(2) by simp
  qed
  have valid: "((\<forall>a. property obj ''art'' = Some (JStr a) \<longrightarrow> trim a = []) \<longrightarrow>
         attempt_body F P (Resolved t) = Inl (Error ''Invalid or empty ASCII art in response'')) \<and>
      (property obj ''art'' = Some (JStr a) \<and> trim a \<noteq> [] \<longrightarrow>
         (\<exists>r. attempt_body F P (Resolved t) = Inr r \<and> art r = a))"
    if p: "parse_response P t = Inr obj"
    using attempt_body_blank [OF p, of F] attempt_body_accepts [OF p, of a F] by simp
  have retry: "(i + 1 < maxRetries \<longrightarrow>
         calls w + i + 2 \<le>
           calls (snd (generateAsciiArt_cfg F P svc topic language apiKey style w)) \<and>
         (\<forall>r2. attempt_body F P (svc (calls w + i + 1)) = Inr r2 \<longrightarrow>
            generateAsciiArt_cfg F P svc topic language apiKey style w =
              (Inr r2, w\<lparr>calls := calls w + i + 2\<rparr>))) \<and>
      (i + 1 = maxRetries \<longrightarrow>
         generateAsciiArt_cfg F P svc topic language apiKey style w =
           (Inl (Error (''Could not generate ASCII art after 3 attempts: '' @
                        ''Invalid or empty ASCII art in response'')),
            w\<lparr>calls := calls w + 3\<rparr>))"
    if key: "\<not> js_not apiKey"
      and before: "\<forall>j<i. isl (attempt_body F P (svc (calls w + j)))"
      and here: "svc (calls w + i) = Resolved t"
      and p: "parse_response P t = Inr obj"
      and blank: "\<forall>a. property obj ''art'' = Some (JStr a) \<longrightarrow> trim a = []"
  proof -
    have b: "attempt_body F P (svc (calls w + i)) =
        Inl (Error ''Invalid or empty ASCII art in response'')"
      using attempt_body_blank [OF p blank, of F] here by simp
    have f: "\<forall>j<Suc i. isl (attempt_body F P (svc (calls w + j)))"
      using before b by (simp add: less_Suc_eq)
    have c1: "calls w + i + 2 \<le>
           calls (snd (generateAsciiArt_cfg F P svc topic language apiKey style w))"
      if lt: "i + 1 < maxRetries"
      using key lt f by (rule generate_after_failures)
    have c2: "generateAsciiArt_cfg F P svc topic language apiKey style w =
              (Inr r2, w\<lparr>calls := calls w + i + 2\<rparr>)"
      if lt: "i + 1 < maxRetries" and ok: "attempt_body F P (svc (calls w + i + 1)) = Inr r2" for r2
    proof -
      have le: "1 + Suc i \<le> maxRetries" using lt by simp
      have ok': "attempt_body F P (svc (calls w + Suc i)) = Inr r2" using ok by simp
      have "attempt_loop F P svc 1 None w = (Inr r2, w\<lparr>calls := calls w + Suc i + 1\<rparr>)"
        using le f ok' by (rule attempt_loop_success)
      then show ?thesis using key by (simp add: generate_present)
    qed
    have c3: "generateAsciiArt_cfg F P svc topic language apiKey style w =
           (Inl (Error (''Could not generate ASCII art after 3 attempts: '' @
                        ''Invalid or empty ASCII art in response'')),
            w\<lparr>calls := calls w + 3\<rparr>)"
      if eq: "i + 1 = maxRetries"
    proof -
      have i2: "i = 2" using eq by (simp add: maxRetries_def)
      have e: "1 + i = maxRetries" using eq by simp
      have "attempt_loop F P svc 1 None w =
          (Inl (Error (''Could not generate ASCII art after 3 attempts: '' @
                       as_Error (Error ''Invalid or empty ASCII art in response''))),
           w\<lparr>calls := calls w + i + 1\<rparr>)"
        using e before b by (rule attempt_loop_exhausted)
      then show ?thesis using key i2 by (simp add: generate_present as_Error_def)
    qed
    show ?thesis using c1 c2 c3 by simp
  qed
  have A: "generateAsciiArt_cfg F P svc topic language apiKey style w = (Inr r, w') \<longrightarrow>
      trim (art r) \<noteq> [] \<and>
      (\<exists>i t obj. i < maxRetries \<and> w' = w\<lparr>calls := calls w + i + 1\<rparr> \<and>
         svc (calls w + i) = Resolved t \<and> parse_response P t = Inr obj \<and>
         property obj ''art'' = Some (JStr (art r)))"
    by (rule impI) (rule safe)
  have B: "parse_response P t = Inr obj \<longrightarrow>
      ((\<forall>a. property obj ''art'' = Some (JStr a) \<longrightarrow> trim a = []) \<longrightarrow>
         attempt_body F P (Resolved t) = Inl (Error ''Invalid or empty ASCII art in response'')) \<and>
      (property obj ''art'' = Some (JStr a) \<and> trim a \<noteq> [] \<longrightarrow>
         (\<exists>r. attempt_body F P (Resolved t) = Inr r \<and> art r = a))"
    by (rule impI) (rule valid)
  have C: "\<not> js_not apiKey \<and> (\<forall>j<i. isl (attempt_body F P (svc (calls w + j)))) \<and>
      svc (calls w + i) = Resolved t \<and> parse_response P t = Inr obj \<and>
      (\<forall>a. property obj ''art'' = Some (JStr a) \<longrightarrow> trim a = []) \<longrightarrow>
      (i + 1 < maxRetries \<longrightarrow>
         calls w + i + 2 \<le>
           calls (snd (generateAsciiArt_cfg F P svc topic language apiKey style w)) \<and>
         (\<forall>r2. attempt_body F P (svc (calls w + i + 1)) = Inr r2 \<longrightarrow>
            generateAsciiArt_cfg F P svc topic language apiKey style w =
              (Inr r2, w\<lparr>calls := calls w + i + 2\<rparr>))) \<and>
      (i + 1 = maxRetries \<longrightarrow>
         generateAsciiArt_cfg F P svc topic language apiKey style w =
           (Inl (Error (''Could not generate ASCII art after 3 attempts: '' @
                        ''Invalid or empty ASCII art in response'')),
            w\<lparr>calls := calls w + 3\<rparr>))"
  proof (rule impI, elim conjE)
    assume h1: "\<not> js_not apiKey"
      and h2: "\<forall>j<i. isl (attempt_body F P (svc (calls w + j)))"
      and h3: "svc (calls w + i) = Resolved t"
      and h4: "parse_response P t = Inr obj"
      and h5: "\<forall>a. property obj ''art'' = Some (JStr a) \<longrightarrow> trim a = []"
    show "(i + 1 < maxRetries \<longrightarrow>
         calls w + i + 2 \<le>
           calls (snd (generateAsciiArt_cfg F P svc topic language apiKey style w)) \<and>
         (\<forall>r2. attempt_body F P (svc (calls w + i + 1)) = Inr r2 \<longrightarrow>
            generateAsciiArt_cfg F P svc topic language apiKey style w =
              (Inr r2, w\<lparr>calls := calls w + i + 2\<rparr>))) \<and>
      (i + 1 = maxRetries \<longrightarrow>
         generateAsciiArt_cfg F P svc topic language apiKey style w =
           (Inl (Error (''Could not generate ASCII art after 3 attempts: '' @
                        ''Invalid or empty ASCII art in response'')),
            w\<lparr>calls := calls w + 3\<rparr>))"
      using h1 h2 h3 h4 h5 by (rule retry)
  qed
  show ?thesis using A B C by (intro conjI)
qed

theorem art_is_never_blank_witness:
  "\<not> js_not (Some ''key'') \<and>
   isl (attempt_body ENABLE_ASCII_TEXT_GENERATION sample_parse (sample_service 0)) \<and>
   sample_service 1 = Resolved ''{\"art\":\" \"}'' \<and>
   parse_response sample_parse ''{\"art\":\" \"}'' = Inr [(''art'', JStr '' '')] \<and>
   property [(''art'', JStr '' '')] ''art'' = Some (JStr '' '') \<and> trim '' '' = [] \<and>
   attempt_body ENABLE_ASCII_TEXT_GENERATION sample_parse (Resolved ''{\"art\":\" \"}'') =
     Inl (Error ''Invalid or empty ASCII art in response'') \<and>
   3 \<le> calls (snd (generateAsciiArt sample_parse sample_service ''cat'' ''English'' (Some ''key'')
                      ''Minimalist'' \<lparr>calls = 0\<rparr>)) \<and>
   generateAsciiArt sample_parse sample_service ''cat'' ''English'' (Some ''key'') ''Minimalist''
       \<lparr>calls = 0\<rparr> =
     (Inr \<lparr>art = ''x'', text' = None\<rparr>, \<lparr>calls = 3\<rparr>) \<and>
   trim ''x'' \<noteq> [] \<and>
   parse_response sample_parse ''{\"art\":\"x\"}'' = Inr [(''art'', JStr ''x'')] \<and>
   (\<exists>r. attempt_body ENABLE_ASCII_TEXT_GENERATION sample_parse (Resolved ''{\"art\":\"x\"}'') = Inr r \<and>
        art r = ''x'') \<and>
   generateAsciiArt sample_parse blank_service ''cat'' ''English'' (Some ''key'') ''Minimalist''
       \<lparr>calls = 0\<rparr> =
     (Inl (Error ''Could not generate ASCII art after 3 attempts: Invalid or empty ASCII art in response''),
      \<lparr>calls = 3\<rparr>)"
proof -
  let ?F = ENABLE_ASCII_TEXT_GENERATION
  let ?blank = "''{\"art\":\" \"}''"
  let ?obj = "[(''art'', JStr '' '')]"
  have key: "\<not> js_not (Some ''key'')" by (simp add: js_not_def)
  have bad: "\<forall>a. property ?obj ''art'' = Some (JStr a) \<longrightarrow> trim a = []"
    by (simp add: property_def trim_def trimStart_def trimEnd_def is_ws_def)
  have p1: "parse_response sample_parse ?blank = Inr ?obj" by (simp add: sample_eval)
  have p2: "parse_response sample_parse ''{\"art\":\"x\"}'' = Inr [(''art'', JStr ''x'')]"
    by (simp add: sample_eval)
  have tx: "trim ''x'' \<noteq> []" by (simp add: trim_def trimStart_def trimEnd_def is_ws_def)
  have s0: "\<forall>j<1. isl (attempt_body ?F sample_parse (sample_service (calls \<lparr>calls = 0\<rparr> + j)))"
    using sample_service_0 [of ?F] by simp
  have s1: "sample_service (calls \<lparr>calls = 0\<rparr> + 1) = Resolved ?blank"
    by (simp add: sample_service_def)
  have s2: "attempt_body ?F sample_parse (sample_service (calls \<lparr>calls = 0\<rparr> + 1 + 1)) =
      Inr \<lparr>art = ''x'', text' = None\<rparr>"
    using sample_service_2 [of ?F] by (simp add: numeral_2_eq_2)
  have b0: "\<forall>j<2. isl (attempt_body ?F sample_parse (blank_service (calls \<lparr>calls = 0\<rparr> + j)))"
    by (simp add: blank_service_fails)
  have b2: "blank_service (calls \<lparr>calls = 0\<rparr> + 2) = Resolved ?blank"
    by (simp add: blank_service_def)
  have m: "(1::nat) + 1 < maxRetries" "(2::nat) + 1 = maxRetries" by (simp_all add: maxRetries_def)
  note I = art_is_never_blank [where F = ?F and P = sample_parse and svc = sample_service
      and topic = "''cat''" and language = "''English''" and apiKey = "Some ''key''"
      and style = "''Minimalist''" and w = "\<lparr>calls = 0\<rparr>" and i = 1 and t = ?blank
      and obj = ?obj and r = "\<lparr>art = ''x'', text' = None\<rparr>" and w' = "\<lparr>calls = 3\<rparr>"]
  note II = art_is_never_blank [where F = ?F and P = sample_parse and svc = blank_service
      and topic = "''cat''" and language = "''English''" and apiKey = "Some ''key''"
      and style = "''Minimalist''" and w = "\<lparr>calls = 0\<rparr>" and i = 2 and t = ?blank
      and obj = ?obj]
  note III = art_is_never_blank [where F = ?F and P = sample_parse
      and t = "''{\"art\":\"x\"}''" and obj = "[(''art'', JStr ''x'')]" and a = "''x''"]
  have r1: "calls \<lparr>calls = 0\<rparr> + 1 + 2 \<le>
           calls (snd (generateAsciiArt_cfg ?F sample_parse sample_service ''cat'' ''English''
                        (Some ''key'') ''Minimalist'' \<lparr>calls = 0\<rparr>))"
    and r2: "generateAsciiArt_cfg ?F sample_parse sample_service ''cat'' ''English''
                        (Some ''key'') ''Minimalist'' \<lparr>calls = 0\<rparr> =
              (Inr \<lparr>art = ''x'', text' = None\<rparr>, \<lparr>calls = 0\<rparr>\<lparr>calls := calls \<lparr>calls = 0\<rparr> + 1 + 2\<rparr>)"
    using I key s0 s1 s2 p1 bad m(1) by blast+
  have r3: "generateAsciiArt_cfg ?F sample_parse blank_service ''cat'' ''English''
                        (Some ''key'') ''Minimalist'' \<lparr>calls = 0\<rparr> =
           (Inl (Error (''Could not generate ASCII art after 3 attempts: '' @
                        ''Invalid or empty ASCII art in response'')),
            \<lparr>calls = 0\<rparr>\<lparr>calls := calls \<lparr>calls = 0\<rparr> + 3\<rparr>)"
    using II key b0 b2 p1 bad m(2) by blast
  have r4: "attempt_body ?F sample_parse (Resolved ?blank) =
      Inl (Error ''Invalid or empty ASCII art in response'')"
    using I p1 bad by blast
  have r5: "\<exists>r. attempt_body ?F sample_parse (Resolved ''{\"art\":\"x\"}'') = Inr r \<and> art r = ''x''"
    using III p2 tx by (simp add: property_def)
  show ?thesis
    using key sample_service_0 [of ?F] s1 p1 p2 tx r1 r2 r3 r4 r5
    by (simp add: generateAsciiArt_def property_def trim_def trimStart_def trimEnd_def is_ws_def)
qed



text \<open>
  C6. A result returned by \<open>generateAsciiArt\<close> comes from the response of one of the at
  most three attempts, and it carries the field \<^verbatim>\<open>text\<close> if and only if the flag
  \<^verbatim>\<open>ENABLE_ASCII_TEXT_GENERATION\<close> is on and the parsed response has a truthy \<^verbatim>\<open>text\<close>;
  the field then has the value of the response. Otherwise the result has only \<^verbatim>\<open>art\<close>.
  With the flag as the source sets it (off), no result carries \<^verbatim>\<open>text\<close>.
\<close>

theorem text_field_only_with_flag:
  "(generateAsciiArt_cfg F P svc topic language apiKey style w = (Inr r, w') \<longrightarrow>
      (\<exists>i t obj. i < maxRetries \<and> w' = w\<lparr>calls := calls w + i + 1\<rparr> \<and>
         svc (calls w + i) = Resolved t \<and> parse_response P t = Inr obj \<and>
         property obj ''art'' = Some (JStr (art r)) \<and>
         (text' r \<noteq> None \<longleftrightarrow> F \<and> truthy (property obj ''text'')) \<and>
         (text' r \<noteq> None \<longrightarrow> text' r = property obj ''text''))) \<and>
   (generateAsciiArt P svc topic language apiKey style w = (Inr r, w') \<longrightarrow> text' r = None)"
proof -
  have main: "\<exists>i t obj. i < maxRetries \<and> w' = w\<lparr>calls := calls w + i + 1\<rparr> \<and>
         svc (calls w + i) = Resolved t \<and> parse_response P t = Inr obj \<and>
         property obj ''art'' = Some (JStr (art r)) \<and>
         (text' r \<noteq> None \<longleftrightarrow> G \<and> truthy (property obj ''text'')) \<and>
         (text' r \<noteq> None \<longrightarrow> text' r = property obj ''text'')"
    if g: "generateAsciiArt_cfg G P svc topic language apiKey style w = (Inr r, w')" for G
  proof -
    obtain i where i: "i < maxRetries" "attempt_body G P (svc (calls w + i)) = Inr r"
      "w' = w\<lparr>calls := calls w + i + 1\<rparr>"
      using generate_Inr [OF g] by blast
    obtain t obj where o: "svc (calls w + i) = Resolved t" "parse_response P t = Inr obj"
      "build_result G obj = Inr r"
      using attempt_body_Inr [OF i(2)] by blast
    have b: "property obj ''art'' = Some (JStr (art r))"
      "text' r = (if G \<and> truthy (property obj ''text'') then property obj ''text'' else None)"
      using build_result_Inr [OF o(3)] by simp_all
    have "truthy (property obj ''text'') \<Longrightarrow> property obj ''text'' \<noteq> None"
      by (cases "property obj ''text''") auto
    then have "(text' r \<noteq> None \<longleftrightarrow> G \<and> truthy (property obj ''text'')) \<and>
         (text' r \<noteq> None \<longrightarrow> text' r = property obj ''text'')"
      using b(2) by auto
    then show ?thesis using i(1,3) o(1,2) b(1) by blast
  qed
  have "text' r = None"
    if "generateAsciiArt P svc topic language apiKey style w = (Inr r, w')"
    using main [of ENABLE_ASCII_TEXT_GENERATION] that
    by (auto simp: generateAsciiArt_def ENABLE_ASCII_TEXT_GENERATION_def)
  then show ?thesis using main [of F] by blast
qed

theorem text_field_only_with_flag_witness:
  "generateAsciiArt_cfg True sample_parse text_service ''cat'' ''English'' (Some ''key'')
       ''Minimalist'' \<lparr>calls = 0\<rparr> =
     (Inr \<lparr>art = ''x'', text' = Some (JStr ''T'')\<rparr>, \<lparr>calls = 1\<rparr>) \<and>
   (\<exists>i t obj. i < maxRetries \<and> \<lparr>calls = 1\<rparr> = \<lparr>calls = 0\<rparr>\<lparr>calls := calls \<lparr>calls = 0\<rparr> + i + 1\<rparr> \<and>
      text_service (calls \<lparr>calls = 0\<rparr> + i) = Resolved t \<and>
      parse_response sample_parse t = Inr obj \<and>
      property obj ''art'' = Some (JStr ''x'') \<and> truthy (property obj ''text'') \<and>
      Some (JStr ''T'') = property obj ''text'') \<and>
   generateAsciiArt sample_parse text_service ''cat'' ''English'' (Some ''key'') ''Minimalist''
       \<lparr>calls = 0\<rparr> =
     (Inr \<lparr>art = ''x'', text' = None\<rparr>, \<lparr>calls = 1\<rparr>)"
proof -
  have g1: "generateAsciiArt_cfg True sample_parse text_service ''cat'' ''English'' (Some ''key'')
       ''Minimalist'' \<lparr>calls = 0\<rparr> =
     (Inr \<lparr>art = ''x'', text' = Some (JStr ''T'')\<rparr>, \<lparr>calls = 1\<rparr>)"
    using text_generate [of True] by simp
  have g2: "generateAsciiArt sample_parse text_service ''cat'' ''English'' (Some ''key'') ''Minimalist''
       \<lparr>calls = 0\<rparr> = (Inr \<lparr>art = ''x'', text' = None\<rparr>, \<lparr>calls = 1\<rparr>)"
    using text_generate [of ENABLE_ASCII_TEXT_GENERATION]
    by (simp add: generateAsciiArt_def ENABLE_ASCII_TEXT_GENERATION_def)
  show ?thesis
    using text_field_only_with_flag [of True sample_parse text_service "''cat''" "''English''"
        "Some ''key''" "''Minimalist''" "\<lparr>calls = 0\<rparr>"
        "\<lparr>art = ''x'', text' = Some (JStr ''T'')\<rparr>" "\<lparr>calls = 1\<rparr>"] g1 g2
    by simp
qed



text \<open>
  C8. For each of the three public operations a missing credential is detected before any
  request is sent (the number of requests is unchanged, whatever the service would answer)
  and is reported as a configuration problem: \<open>generateAsciiArt\<close> and \<open>getRandomWord\<close>
  throw \<^verbatim>\<open>API Key is missing. Please provide a valid API key.\<close>, and \<open>streamDefinition\<close>
  yields the single fragment
  \<^verbatim>\<open>Error: API_KEY is not configured. Please set your API key to continue.\<close> and completes.
\<close>

theorem missing_credential_is_a_configuration_error:
  assumes "js_not apiKey"
  shows "generateAsciiArt P svc topic language apiKey style w =
           (Inl (Error ''API Key is missing. Please provide a valid API key.''), w) \<and>
         getRandomWord svc language apiKey w =
           (Inl (Error ''API Key is missing. Please provide a valid API key.''), w) \<and>
         streamDefinition ssvc topic language apiKey w =
           (([''Error: API_KEY is not configured. Please set your API key to continue.''],
             Returned), w)"
  using getAi_missing [OF assms] assms
  by (simp add: generateAsciiArt_def generateAsciiArt_cfg_def getRandomWord_def
      streamDefinition_def)

theorem missing_credential_is_a_configuration_error_witness:
  "js_not (Some []) \<and>
   generateAsciiArt sample_parse sample_service ''cat'' ''English'' (Some []) ''Minimalist''
       \<lparr>calls = 0\<rparr> =
     (Inl (Error ''API Key is missing. Please provide a valid API key.''), \<lparr>calls = 0\<rparr>) \<and>
   getRandomWord sample_service ''English'' (Some []) \<lparr>calls = 0\<rparr> =
     (Inl (Error ''API Key is missing. Please provide a valid API key.''), \<lparr>calls = 0\<rparr>) \<and>
   streamDefinition complete_stream ''cat'' ''English'' (Some []) \<lparr>calls = 0\<rparr> =
     (([''Error: API_KEY is not configured. Please set your API key to continue.''], Returned),
      \<lparr>calls = 0\<rparr>)"
proof -
  have h: "js_not (Some [])" by (simp add: js_not_def)
  show ?thesis
    using missing_credential_is_a_configuration_error [OF h, of sample_parse sample_service
        "''cat''" "''English''" "''Minimalist''" "\<lparr>calls = 0\<rparr>" complete_stream] h
    by simp
qed

text \<open>
  C9, as stated: \<open>getRandomWord\<close> makes exactly one request and, on success, returns the
  response text. This fails in two places. For the response text \<^verbatim>\<open>" cat "\<close> the value
  returned is \<^verbatim>\<open>"cat"\<close>: the text is trimmed. And with an empty credential no request is
  made at all, and the error is the configuration error, not one that wraps an underlying
  failure.
\<close>

theorem getRandomWord_counterexample:
  "padded_service 0 = Resolved '' cat '' \<and>
   getRandomWord padded_service ''English'' (Some ''key'') \<lparr>calls = 0\<rparr> =
     (Inr ''cat'', \<lparr>calls = 1\<rparr>) \<and>
   ''cat'' \<noteq> '' cat '' \<and>
   getRandomWord padded_service ''English'' (Some []) \<lparr>calls = 0\<rparr> =
     (Inl (Error ''API Key is missing. Please provide a valid API key.''), \<lparr>calls = 0\<rparr>)"
  by (simp add: getRandomWord_def getAi_def generateContent_def padded_service_def
      trim_def trimStart_def trimEnd_def is_ws_def)

text \<open>
  C9, amended. With a credential present \<open>getRandomWord\<close> makes exactly one request and
  never retries: when the request succeeds it returns the response text with leading and
  trailing whitespace removed; when the request fails it fails at once with the message
  \<^verbatim>\<open>Could not get random word: \<close> followed by the message of the underlying failure (the
  fixed text \<^verbatim>\<open>An unknown error occurred.\<close> when the thrown value is not an \<^verbatim>\<open>Error\<close>),
  and returns nothing. With the credential missing it makes no request and fails with the
  configuration error.
\<close>

theorem getRandomWord_single_request:
  "(\<not> js_not apiKey \<longrightarrow>
      getRandomWord svc language apiKey w =
        (case svc (calls w) of
           Resolved t \<Rightarrow> (Inr (trim t), w\<lparr>calls := Suc (calls w)\<rparr>)
         | Rejected e \<Rightarrow>
             (Inl (Error (''Could not get random word: '' @
                          (case e of Error m \<Rightarrow> m | NonError \<Rightarrow> ''An unknown error occurred.''))),
              w\<lparr>calls := Suc (calls w)\<rparr>))) \<and>
   (js_not apiKey \<longrightarrow>
      getRandomWord svc language apiKey w =
        (Inl (Error ''API Key is missing. Please provide a valid API key.''), w))"
proof (intro conjI impI)
  assume "\<not> js_not apiKey"
  then show "getRandomWord svc language apiKey w =
        (case svc (calls w) of
           Resolved t \<Rightarrow> (Inr (trim t), w\<lparr>calls := Suc (calls w)\<rparr>)
         | Rejected e \<Rightarrow>
             (Inl (Error (''Could not get random word: '' @
                          (case e of Error m \<Rightarrow> m | NonError \<Rightarrow> ''An unknown error occurred.''))),
              w\<lparr>calls := Suc (calls w)\<rparr>))"
    using getAi_present [of apiKey]
    by (auto simp: getRandomWord_def generateContent_def errorMessage_def
        split: call_outcome.splits)
next
  assume "js_not apiKey"
  then show "getRandomWord svc language apiKey w =
        (Inl (Error ''API Key is missing. Please provide a valid API key.''), w)"
    using getAi_missing [of apiKey] by (simp add: getRandomWord_def)
qed

theorem getRandomWord_single_request_witness:
  "\<not> js_not (Some ''key'') \<and> js_not None \<and>
   getRandomWord failing_service ''English'' (Some ''key'') \<lparr>calls = 2\<rparr> =
     (Inl (Error ''Could not get random word: quota exceeded''), \<lparr>calls = 3\<rparr>) \<and>
   getRandomWord failing_service ''English'' (Some ''key'') \<lparr>calls = 1\<rparr> =
     (Inl (Error ''Could not get random word: An unknown error occurred.''), \<lparr>calls = 2\<rparr>) \<and>
   getRandomWord failing_service ''English'' (Some ''key'') \<lparr>calls = 0\<rparr> =
     (Inr ''no json here'', \<lparr>calls = 1\<rparr>) \<and>
   getRandomWord failing_service ''English'' None \<lparr>calls = 0\<rparr> =
     (Inl (Error ''API Key is missing. Please provide a valid API key.''), \<lparr>calls = 0\<rparr>)"
proof -
  have h: "\<not> js_not (Some ''key'')" by (simp add: js_not_def)
  have n: "js_not None" by (simp add: js_not_def)
  show ?thesis
    using getRandomWord_single_request [of "Some ''key''" failing_service "''English''" "\<lparr>calls = 2\<rparr>"]
      getRandomWord_single_request [of "Some ''key''" failing_service "''English''" "\<lparr>calls = 1\<rparr>"]
      getRandomWord_single_request [of "Some ''key''" failing_service "''English''" "\<lparr>calls = 0\<rparr>"]
      getRandomWord_single_request [of None failing_service "''English''" "\<lparr>calls = 0\<rparr>"] h n
    by (simp add: failing_service_def trim_def trimStart_def trimEnd_def is_ws_def)
qed

text \<open>
  C10. Every fragment that \<open>streamDefinition\<close> yields is a non-empty string. When the
  stream completes, the fragments are exactly the texts of the chunks whose text is present
  and not empty, in their order: chunks without text or with an empty text are skipped.
\<close>

theorem stream_fragments_nonempty:
  "(\<forall>f\<in>set (fst (fst (streamDefinition svc topic language apiKey w))). f \<noteq> []) \<and>
   (\<not> js_not apiKey \<and> svc (calls w) = Streamed chunks Completed \<longrightarrow>
      fst (streamDefinition svc topic language apiKey w) = (for_await_chunks chunks, Returned) \<and>
      map Some (for_await_chunks chunks) = filter (\<lambda>c. c \<noteq> None \<and> c \<noteq> Some []) chunks)"
proof (intro conjI impI)
  show "\<forall>f\<in>set (fst (fst (streamDefinition svc topic language apiKey w))). f \<noteq> []"
  proof (cases "js_not apiKey")
    case True
    then show ?thesis by (simp add: streamDefinition_def)
  next
    case False
    then show ?thesis
      using for_await_chunks_nonempty stream_error_fragment_nonempty
      by (auto simp: stream_present split: stream_outcome.splits stream_end.splits)
  qed
next
  assume "\<not> js_not apiKey \<and> svc (calls w) = Streamed chunks Completed"
  then show "fst (streamDefinition svc topic language apiKey w) = (for_await_chunks chunks, Returned)"
    by (simp add: stream_present)
next
  show "map Some (for_await_chunks chunks) = filter (\<lambda>c. c \<noteq> None \<and> c \<noteq> Some []) chunks"
    by (rule for_await_chunks_filter)
qed

theorem stream_fragments_nonempty_witness:
  "\<not> js_not (Some ''key'') \<and>
   complete_stream (calls \<lparr>calls = 0\<rparr>) =
     Streamed [Some ''A cat '', Some [], None, Some ''is a mammal.''] Completed \<and>
   streamDefinition complete_stream ''cat'' ''English'' (Some ''key'') \<lparr>calls = 0\<rparr> =
     (([''A cat '', ''is a mammal.''], Returned), \<lparr>calls = 1\<rparr>) \<and>
   ''A cat '' \<noteq> [] \<and> ''is a mammal.'' \<noteq> []"
proof -
  have h1: "\<not> js_not (Some ''key'')" by (simp add: js_not_def)
  have h2: "complete_stream (calls \<lparr>calls = 0\<rparr>) =
      Streamed [Some ''A cat '', Some [], None, Some ''is a mammal.''] Completed"
    by (simp add: complete_stream_def)
  have w: "snd (streamDefinition complete_stream ''cat'' ''English'' (Some ''key'') \<lparr>calls = 0\<rparr>) =
      \<lparr>calls = 1\<rparr>"
    using h1 h2 by (simp add: stream_present)
  show ?thesis
    using stream_fragments_nonempty [of complete_stream "''cat''" "''English''" "Some ''key''"
        "\<lparr>calls = 0\<rparr>" "[Some ''A cat '', Some [], None, Some ''is a mammal.'']"] h1 h2 w
    by (simp add: prod_eq_iff)
qed

end
